(* ===== verification/Prelude.thy ===== *)
theory Prelude
  imports Main "HOL-Library.List_Lexorder" "HOL-Library.Char_ord" "HOL-Library.Word"
begin

text \<open>
  Shared vocabulary of the development. Store keys are byte strings compared bytewise,
  as RocksDB's default comparator does: \<open>string\<close> with the lexicographic order of
  \<open>List_Lexorder\<close> over the code order of \<open>Char_ord\<close>. Block heights are Rust
  \<open>i64\<close> values; the walker only ever computes \<open>-1 + 1\<close> and \<open>h + 1\<close> from heights
  the node reports, so they are modelled as \<open>int\<close> (see the header of the root theory).
  The collection \<open>sync_simps\<close> gathers the effect lemmas of the pipeline's state
  operations, so that component proofs can unfold one step with \<open>simp add: sync_simps\<close>.
\<close>

type_synonym key = string
type_synonym height = int

type_synonym i64 = "64 word"

definition i64_max :: int where
  "i64_max = 2 ^ 63 - 1"

definition i64_succ :: "height \<Rightarrow> height" where
  "i64_succ h = sint ((word_of_int h :: i64) + 1)"

text \<open>
  The same \<open>+ 1\<close> in a debug build, where Rust checks the addition and panics on
  overflow: \<open>None\<close> is the panic.
\<close>

definition i64_checked_succ :: "height \<Rightarrow> height option" where
  "i64_checked_succ h = (if i64_max < h + 1 then None else Some (h + 1))"

named_theorems sync_simps "effect lemmas of the pipeline state operations"

text \<open>Generic facts on association lists and maps that several components use.\<close>

lemma map_of_strict_sorted_notin:
  fixes k :: "'k::linorder"
  assumes "sorted_wrt (\<lambda>a b. fst a < fst b) ((k', v') # es)" and "k \<le> k'"
  shows "map_of es k = None"
proof -
  from assms(1) have "\<forall>x \<in> set es. k' < fst x" by simp
  have "k \<notin> fst ` set es"
  proof
    assume "k \<in> fst ` set es"
    then obtain x where "x \<in> set es" and "fst x = k" by blast
    with \<open>\<forall>x \<in> set es. k' < fst x\<close> have "k' < k" by blast
    with assms(2) show False by (simp add: leD)
  qed
  then show ?thesis by (simp add: map_of_eq_None_iff)
qed

lemma map_le_upd_same:
  "m k = Some v \<Longrightarrow> m(k \<mapsto> v) = m"
  by (rule ext) simp

lemma map_le_upd_fresh_or_same:
  "m k = None \<or> m k = Some v \<Longrightarrow> m \<subseteq>\<^sub>m m(k \<mapsto> v)"
  by (auto simp: map_le_def)

lemma Max_insert_max:
  fixes a b :: "'a::linorder"
  shows "finite S \<Longrightarrow> Max (insert (max a b) S) = Max (insert a (insert b S))"
  by (cases "S = {}") (simp_all add: max.assoc)

lemma ran_map_of_conv:
  "v \<in> ran (map_of es) \<Longrightarrow> \<exists>k. (k, v) \<in> set es"
  by (auto simp: ran_def dest: map_of_SomeD)

lemma concat_map_take_prefix:
  "\<exists>n'. concat (map f (take n xs)) = take n' (concat (map f xs))"
proof (induction xs arbitrary: n)
  case Nil
  then show ?case by simp
next
  case (Cons x xs)
  show ?case
  proof (cases n)
    case 0
    then have "concat (map f (take n (x # xs))) = take 0 (concat (map f (x # xs)))" by simp
    then show ?thesis by blast
  next
    case (Suc m)
    from Cons.IH obtain n' where "concat (map f (take m xs)) = take n' (concat (map f xs))" by blast
    then have "concat (map f (take n (x # xs))) = take (length (f x) + n') (concat (map f (x # xs)))"
      by (simp add: Suc)
    then show ?thesis by blast
  qed
qed

text \<open>
  A prefix of a concatenation of blocks, each opening with a head element: it lies within
  the first \<open>j\<close> blocks and holds the head of each of them.
\<close>

lemma take_concat_heads:
  "\<exists>j \<le> length xs. set (take n (concat (map (\<lambda>x. h x # r x) xs))) \<subseteq>
      set (concat (map (\<lambda>x. h x # r x) (take j xs))) \<and>
    (\<forall>x \<in> set (take j xs). h x \<in> set (take n (concat (map (\<lambda>x. h x # r x) xs))))"
proof (induction xs arbitrary: n)
  case Nil
  then show ?case by simp
next
  case (Cons x xs)
  show ?case
  proof (cases n)
    case 0
    then show ?thesis by (intro exI [of _ 0]) simp
  next
    case (Suc m)
    show ?thesis
    proof (cases "m \<le> length (r x)")
      case True
      then have t: "take n (concat (map (\<lambda>x. h x # r x) (x # xs))) = h x # take m (r x)"
        by (simp add: Suc)
      have "set (take m (r x)) \<subseteq> set (r x)" by (rule set_take_subset)
      then have "set (take n (concat (map (\<lambda>x. h x # r x) (x # xs)))) \<subseteq>
          set (concat (map (\<lambda>x. h x # r x) (take 1 (x # xs))))"
        unfolding t by auto
      moreover have "\<forall>y \<in> set (take 1 (x # xs)). h y \<in> set (take n (concat (map (\<lambda>x. h x # r x) (x # xs))))"
        unfolding t by simp
      ultimately show ?thesis by (intro exI [of _ 1]) simp
    next
      case False
      let ?c = "concat (map (\<lambda>x. h x # r x) xs)"
      from Cons.IH [of "m - length (r x)"] obtain j where j: "j \<le> length xs"
        "set (take (m - length (r x)) ?c) \<subseteq> set (concat (map (\<lambda>x. h x # r x) (take j xs)))"
        "\<forall>y \<in> set (take j xs). h y \<in> set (take (m - length (r x)) ?c)" by blast
      have t: "take n (concat (map (\<lambda>x. h x # r x) (x # xs))) = h x # r x @ take (m - length (r x)) ?c"
        using False by (simp add: Suc)
      show ?thesis
      proof (intro exI [of _ "Suc j"] conjI)
        show "Suc j \<le> length (x # xs)" using j(1) by simp
        show "set (take n (concat (map (\<lambda>x. h x # r x) (x # xs)))) \<subseteq>
            set (concat (map (\<lambda>x. h x # r x) (take (Suc j) (x # xs))))"
          unfolding t using j(2) by auto
        show "\<forall>y \<in> set (take (Suc j) (x # xs)). h y \<in> set (take n (concat (map (\<lambda>x. h x # r x) (x # xs))))"
          unfolding t using j(3) by auto
      qed
    qed
  qed
qed

text \<open>A prefix of a concatenation: the first \<open>j\<close> pieces whole, then a prefix of piece \<open>j\<close>.\<close>

lemma take_concat_map_split:
  "\<exists>j \<le> length xs. \<exists>r. take n (concat (map f xs)) =
     concat (map f (take j xs)) @ take r (concat (map f (take 1 (drop j xs))))"
proof (induction xs arbitrary: n)
  case Nil
  then show ?case by simp
next
  case (Cons x xs)
  show ?case
  proof (cases "n \<le> length (f x)")
    case True
    then have "take n (concat (map f (x # xs))) =
        concat (map f (take 0 (x # xs))) @ take n (concat (map f (take 1 (drop 0 (x # xs)))))"
      by simp
    then show ?thesis by blast
  next
    case False
    from Cons.IH [of "n - length (f x)"] obtain j r where j: "j \<le> length xs"
      "take (n - length (f x)) (concat (map f xs)) =
         concat (map f (take j xs)) @ take r (concat (map f (take 1 (drop j xs))))" by blast
    with False have "take n (concat (map f (x # xs))) =
        concat (map f (take (Suc j) (x # xs))) @ take r (concat (map f (take 1 (drop (Suc j) (x # xs)))))"
      by simp
    with j(1) show ?thesis by (intro exI [of _ "Suc j"]) auto
  qed
qed

lemma i64_succ_exact:
  assumes "- (2 ^ 63) \<le> h" and "h < i64_max"
  shows "i64_succ h = h + 1"
proof -
  have "sint ((word_of_int h :: i64) + 1) = sint (word_of_int (h + 1) :: i64)" by simp
  also have "\<dots> = signed_take_bit 63 (h + 1)" unfolding sint_sbintrunc' by simp
  also have "\<dots> = h + 1"
    using assms by (intro signed_take_bit_int_eq_self) (simp_all add: i64_max_def)
  finally show ?thesis by (simp add: i64_succ_def)
qed

lemma in_set_concat_map: "x \<in> set (concat (map f xs)) \<Longrightarrow> \<exists>y \<in> set xs. x \<in> set (f y)"
  by auto

end
