(* ===== verification/Store.thy ===== *)
theory Store
  imports Prelude
begin

text \<open>
  The durable store (RocksDB, an external collaborator: its code is not in this
  repository, so the model follows the interface the spec and the source's calls use).
  The database is an ordered key/value store: an association list kept strictly sorted
  by key, which is also the order \<open>db.iterator(IteratorMode::Start)\<close> yields.
  \<open>db_put\<close> is \<open>DB::put\<close> and \<open>db_write\<close> is \<open>DB::write(WriteBatch)\<close>, which
  applies the batch's puts in order as one unit; \<open>DB::get\<close> is \<open>map_of\<close> of the
  list (the source only reads back to log a length, so reads are not modelled), and
  \<open>db_iterator\<close> is the iterator the watermark scan walks.
  The abstraction of a database is the map \<open>map_of\<close>; the lemmas show that the
  sorted-list operations refine the map operations and keep the ordering invariant,
  and that a well-formed store is determined by its set of entries (\<open>db_wf_eq\<close>).
\<close>

type_synonym 'v db = "(key \<times> 'v) list"
type_synonym 'v write_batch = "(key \<times> 'v) list"

definition db_wf :: "'v db \<Rightarrow> bool" where
  "db_wf d \<longleftrightarrow> sorted_wrt (\<lambda>a b. fst a < fst b) d"

fun db_put :: "key \<Rightarrow> 'v \<Rightarrow> 'v db \<Rightarrow> 'v db" where
  "db_put k v [] = [(k, v)]"
| "db_put k v ((k', v') # es) =
     (if k < k' then (k, v) # (k', v') # es
      else if k = k' then (k, v) # es
      else (k', v') # db_put k v es)"

definition db_write :: "'v write_batch \<Rightarrow> 'v db \<Rightarrow> 'v db" where
  "db_write b d = fold (\<lambda>(k, v). db_put k v) b d"

text \<open>
  \<open>DB::iterator(IteratorMode::Start)\<close> yields \<open>Result\<close> items: an entry, or a
  storage error that ends a \<open>while let Some(Ok(..))\<close> loop. The model's store
  cannot fail, so its iterator yields every entry in key order; \<open>db_item\<close> lists with
  errors in them describe a failing iterator.
\<close>

datatype rocks_error = RocksIOError | RocksCorruption

type_synonym 'v db_item = "rocks_error + (key \<times> 'v)"

definition db_iterator :: "'v db \<Rightarrow> 'v db_item list" where
  "db_iterator d = map Inr d"

subsection \<open>The ordering invariant\<close>

lemma set_db_put: "set (db_put k v d) \<subseteq> insert (k, v) (set d)"
  by (induction d) (auto split: if_splits)

lemma keys_db_put: "fst ` set (db_put k v d) = insert k (fst ` set d)"
  by (induction k v d rule: db_put.induct) (simp_all add: insert_commute)

lemma db_put_wf: "db_wf d \<Longrightarrow> db_wf (db_put k v d)"
proof (induction d)
  case Nil
  then show ?case by (simp add: db_wf_def)
next
  case (Cons e es)
  obtain k' v' where e: "e = (k', v')" by fastforce
  from Cons.prems have IH: "db_wf (db_put k v es)"
    by (intro Cons.IH) (simp add: db_wf_def)
  have "\<forall>x \<in> set (db_put k v es). k' < fst x" if "k' < k"
    using Cons.prems that keys_db_put [of k v es] by (force simp: db_wf_def e)
  with Cons.prems IH show ?case
    by (auto simp: db_wf_def e dest: order.strict_trans)
qed

lemma db_wf_distinct:
  assumes "db_wf d"
  shows "distinct (map fst d)"
proof -
  from assms have "sorted_wrt (<) (map fst d)"
    by (simp add: db_wf_def sorted_wrt_map)
  then show ?thesis by (simp add: strict_sorted_iff)
qed

lemma db_write_wf: "db_wf d \<Longrightarrow> db_wf (db_write b d)"
  unfolding db_write_def
  by (induction b arbitrary: d) (auto simp: db_put_wf)

subsection \<open>Refinement of the map abstraction\<close>

lemma map_of_db_put: "db_wf d \<Longrightarrow> map_of (db_put k v d) = (map_of d)(k \<mapsto> v)"
proof (induction d)
  case Nil
  then show ?case by simp
next
  case (Cons e es)
  obtain k' v' where e: "e = (k', v')" by fastforce
  from Cons.prems have IH: "map_of (db_put k v es) = (map_of es)(k \<mapsto> v)"
    by (intro Cons.IH) (simp add: db_wf_def)
  have "map_of es k = None" if "k = k'"
    using Cons.prems that map_of_strict_sorted_notin by (fastforce simp: db_wf_def e)
  with IH show ?case
    by (auto simp: e fun_upd_twist)
qed

lemma map_of_db_write:
  "db_wf d \<Longrightarrow> map_of (db_write b d) = map_of d ++ map_of (rev b)"
proof (induction b arbitrary: d)
  case Nil
  then show ?case by (simp add: db_write_def)
next
  case (Cons e b)
  obtain k v where e: "e = (k, v)" by fastforce
  have "map_of (db_write b (db_put k v d)) = map_of (db_put k v d) ++ map_of (rev b)"
    using Cons.prems by (intro Cons.IH db_put_wf)
  then show ?case
    using Cons.prems by (simp add: db_write_def e map_of_db_put map_add_def fun_eq_iff
        split: option.splits)
qed

text \<open>A well-formed store is determined by its set of entries.\<close>

lemma db_wf_eq:
  assumes "db_wf d" and "db_wf d'" and "set d = set d'"
  shows "d = d'"
  using assms
proof (induction d arbitrary: d')
  case Nil
  then show ?case by simp
next
  case (Cons e es)
  then obtain e' es' where d': "d' = e' # es'" by (cases d') auto
  from Cons.prems(1) have lt: "\<forall>x \<in> set es. fst e < fst x" by (simp add: db_wf_def)
  from Cons.prems(2) d' have lt': "\<forall>x \<in> set es'. fst e' < fst x" by (simp add: db_wf_def)
  have ee: "e = e'"
  proof (rule ccontr)
    assume ne: "e \<noteq> e'"
    from Cons.prems(3) d' ne have "e \<in> set es'" "e' \<in> set es" by auto
    with lt lt' show False by fastforce
  qed
  have "e \<notin> set es" "e' \<notin> set es'" using lt lt' by auto
  with Cons.prems(3) d' ee have "set es = set es'" by auto
  moreover have "db_wf es" "db_wf es'" using Cons.prems(1,2) d' by (simp_all add: db_wf_def)
  ultimately have "es = es'" using Cons.IH by blast
  with ee d' show ?case by simp
qed

lemma db_put_idem: "db_put k v (db_put k v d) = db_put k v d"
  by (induction k v d rule: db_put.induct) auto

lemma db_write_Cons: "db_write ((k, v) # b) d = db_write b (db_put k v d)"
  by (simp add: db_write_def)

lemma db_write_append: "db_write (b @ c) d = db_write c (db_write b d)"
  by (simp add: db_write_def)

lemma set_db_write: "set (db_write b d) \<subseteq> set d \<union> set b"
proof (induction b arbitrary: d)
  case Nil
  then show ?case by (simp add: db_write_def)
next
  case (Cons e b)
  obtain k v where e: "e = (k, v)" by fastforce
  have "set (db_write b (db_put k v d)) \<subseteq> set (db_put k v d) \<union> set b" by (rule Cons.IH)
  with set_db_put [of k v d] show ?case by (auto simp: e db_write_Cons)
qed

lemma db_write_mem:
  assumes "db_wf d" and "(k, v) \<in> set b" and "\<forall>v'. (k, v') \<in> set b \<longrightarrow> v' = v"
  shows "(k, v) \<in> set (db_write b d)"
proof -
  from assms(2) have "k \<in> fst ` set b" by force
  then have "k \<in> dom (map_of (rev b))" by (simp add: dom_map_of_conv_image_fst)
  then obtain v' where v': "map_of (rev b) k = Some v'" by blast
  then have "(k, v') \<in> set b" by (auto dest: map_of_SomeD)
  with assms(3) v' have "map_of (rev b) k = Some v" by simp
  with assms(1) have "map_of (db_write b d) k = Some v" by (simp add: map_of_db_write)
  then show ?thesis by (rule map_of_SomeD)
qed

lemma db_write_mem_functional:
  assumes "db_wf d" and "(k, v) \<in> set d \<union> set b"
    and "\<forall>v'. (k, v') \<in> set d \<union> set b \<longrightarrow> v' = v"
  shows "(k, v) \<in> set (db_write b d)"
proof (cases "(k, v) \<in> set b")
  case True
  have "\<forall>v'. (k, v') \<in> set b \<longrightarrow> v' = v"
  proof (intro allI impI)
    fix v' assume "(k, v') \<in> set b"
    then have "(k, v') \<in> set d \<union> set b" by (rule UnI2)
    with assms(3) show "v' = v" by blast
  qed
  with assms(1) True show ?thesis by (rule db_write_mem)
next
  case False
  with assms(2) have d: "(k, v) \<in> set d" by simp
  have "map_of (db_write b d) k = Some v"
  proof (cases "map_of (rev b) k")
    case None
    from assms(1) have "distinct (map fst d)" by (rule db_wf_distinct)
    from this d have "map_of d k = Some v" by (rule map_of_is_SomeI)
    with None assms(1) show ?thesis by (simp add: map_of_db_write map_add_def)
  next
    case (Some v')
    then have "(k, v') \<in> set (rev b)" by (rule map_of_SomeD)
    then have "(k, v') \<in> set d \<union> set b" by simp
    with assms(3) have "v' = v" by blast
    with Some assms(1) show ?thesis by (simp add: map_of_db_write map_add_def)
  qed
  then show ?thesis by (rule map_of_SomeD)
qed

lemma db_write_Nil [simp]: "db_write [] d = d"
  by (simp add: db_write_def)

end
