(* ===== verification/Rpc.thy ===== *)
theory Rpc
  imports Prelude
begin

text \<open>
  The remote chain client (the \<open>rusty_piv\<close> crate's \<open>BitcoinRpcClient\<close>) and the
  record types it returns, and the \<open>bincode\<close> codec. Neither crate is in this
  repository, so their shapes follow the spec's interface (section 6) and the fields
  \<open>src/src/main.rs\<close> reads:
  \<^item> \<open>full_block\<close> is \<open>FullBlock\<close> with the fields the code uses (\<open>hash\<close>,
    \<open>height\<close>, \<open>tx\<close>, \<open>nextblockhash\<close>);
  \<^item> \<open>'d raw_tx_info\<close> is \<open>GetRawTransactionInfo\<close>: its \<open>txid\<close> and, as one value of
    type \<open>'d\<close>, the nineteen fields the code copies verbatim (version to blocktime);
  \<^item> \<open>'d client\<close> holds the four RPC calls, each failing with an \<open>rpc_error\<close>. The
    node is a fixed function of the arguments: the spec's single canonical chain.
  \<^item> \<open>('v, 'd) codec\<close> is \<open>bincode::serialize\<close> and \<open>bincode::deserialize\<close> for both
    record types into the store's value type \<open>'v\<close>; deserialisation fails with a
    \<open>decode_error\<close>, of which the code distinguishes \<open>InvalidUtf8Encoding\<close>.
  The theory also holds a concrete node over a list of blocks (\<open>chain_client\<close>) and
  what it means for that list to be one canonical chain (\<open>canonical_chain\<close>): the
  environment under which the end-to-end properties of the root theory are stated.
\<close>

datatype rpc_error = NotFoundError | ConnectivityError

record full_block =
  hash :: string
  height :: height
  tx :: "string list"
  nextblockhash :: "string option"

record 'd raw_tx_info =
  txid :: string
  tx_fields :: 'd

record 'd client =
  getblockcount :: "rpc_error + int"
  getblockhash :: "height \<Rightarrow> rpc_error + string"
  getblock :: "string \<Rightarrow> rpc_error + full_block"
  getrawtransaction :: "string \<Rightarrow> bool \<Rightarrow> rpc_error + 'd raw_tx_info"

datatype decode_error = InvalidUtf8Encoding | OtherDecodeError

record ('v, 'd) codec =
  serialize_block :: "full_block \<Rightarrow> 'v"
  deserialize_block :: "'v \<Rightarrow> decode_error + full_block"
  serialize_tx :: "'d raw_tx_info \<Rightarrow> 'v"
  deserialize_tx :: "'v \<Rightarrow> decode_error + 'd raw_tx_info"

text \<open>
  A codec the watermark scan can rely on: a serialised block decodes to itself, and a
  serialised transaction never decodes as a block. The second half is exactly what the
  source assumes of \<open>bincode\<close> when it tries \<open>FullBlock\<close> first (spec section 9).
\<close>

definition codec_ok :: "('v, 'd) codec \<Rightarrow> bool" where
  "codec_ok cd \<longleftrightarrow>
     (\<forall>b. deserialize_block cd (serialize_block cd b) = Inr b) \<and>
     (\<forall>t. isl (deserialize_block cd (serialize_tx cd t)))"

text \<open>
  The round-trip law of \<open>bincode\<close> for each record type: decoding what was encoded
  gives it back.
\<close>

definition codec_roundtrip :: "('v, 'd) codec \<Rightarrow> bool" where
  "codec_roundtrip cd \<longleftrightarrow>
     (\<forall>b. deserialize_block cd (serialize_block cd b) = Inr b) \<and>
     (\<forall>t. deserialize_tx cd (serialize_tx cd t) = Inr t)"

text \<open>
  A codec satisfying these laws: the tagged-variant encoding the spec recommends
  (section 9), where a stored value says which record it holds.
\<close>

datatype 'd stored_value = StoredBlock full_block | StoredTx "'d raw_tx_info"

definition tagged_codec :: "('d stored_value, 'd) codec" where
  "tagged_codec =
     \<lparr>serialize_block = StoredBlock,
      deserialize_block = (\<lambda>v. case v of StoredBlock b \<Rightarrow> Inr b | StoredTx t \<Rightarrow> Inl OtherDecodeError),
      serialize_tx = StoredTx,
      deserialize_tx = (\<lambda>v. case v of StoredTx t \<Rightarrow> Inr t | StoredBlock b \<Rightarrow> Inl OtherDecodeError)\<rparr>"

subsection \<open>A node serving one canonical chain\<close>

text \<open>
  \<open>chain_client bs txs\<close> answers from the list \<open>bs\<close> of blocks (index = height) and
  the transaction oracle \<open>txs\<close>; \<open>canonical_chain bs\<close> says the list is linked the
  way the spec's data model describes: heights \<open>0, 1, \<dots>\<close>, each block's successor
  hash is the next block's hash and the tip has none, hashes are distinct.
\<close>

fun find_block :: "full_block list \<Rightarrow> string \<Rightarrow> rpc_error + full_block" where
  "find_block [] h = Inl NotFoundError"
| "find_block (b # bs) h = (if hash b = h then Inr b else find_block bs h)"

definition chain_client ::
  "full_block list \<Rightarrow> (string \<Rightarrow> rpc_error + 'd raw_tx_info) \<Rightarrow> 'd client" where
  "chain_client bs txs =
     \<lparr>getblockcount = Inr (int (length bs) - 1),
      getblockhash = (\<lambda>i. if 0 \<le> i \<and> i < int (length bs) then Inr (hash (bs ! nat i))
                          else Inl NotFoundError),
      getblock = find_block bs,
      getrawtransaction = (\<lambda>t verbose. txs t)\<rparr>"

fun linked_from :: "height \<Rightarrow> full_block list \<Rightarrow> bool" where
  "linked_from h [] = True"
| "linked_from h [b] = (height b = h \<and> nextblockhash b = None)"
| "linked_from h (b # c # bs) =
     (height b = h \<and> nextblockhash b = Some (hash c) \<and> linked_from (h + 1) (c # bs))"

definition canonical_chain :: "full_block list \<Rightarrow> bool" where
  "canonical_chain bs \<longleftrightarrow> linked_from 0 bs \<and> distinct (map hash bs)"

subsection \<open>Facts about the codec and the canonical node\<close>

lemma codec_ok_tagged_codec: "codec_ok tagged_codec"
  by (simp add: codec_ok_def tagged_codec_def)

lemma codec_roundtrip_tagged_codec: "codec_roundtrip tagged_codec"
  by (simp add: codec_roundtrip_def tagged_codec_def)

lemma find_block_Inr: "find_block bs h = Inr b \<Longrightarrow> b \<in> set bs \<and> hash b = h"
  by (induction bs) (auto split: if_splits)

lemma find_block_nth:
  "distinct (map hash bs) \<Longrightarrow> i < length bs \<Longrightarrow> find_block bs (hash (bs ! i)) = Inr (bs ! i)"
proof (induction bs arbitrary: i)
  case Nil
  then show ?case by simp
next
  case (Cons b bs)
  show ?case
  proof (cases i)
    case 0
    then show ?thesis by simp
  next
    case (Suc j)
    with Cons.prems have "bs ! j \<in> set bs" by simp
    then have "hash (bs ! j) \<in> set (map hash bs)" by simp
    moreover from Cons.prems have "hash b \<notin> set (map hash bs)" by simp
    ultimately have "hash (bs ! j) \<noteq> hash b" by auto
    with Cons Suc show ?thesis by simp
  qed
qed

lemma find_block_notin: "h \<notin> hash ` set bs \<Longrightarrow> find_block bs h = Inl NotFoundError"
  by (induction bs) auto

lemma linked_from_nth:
  "linked_from h bs \<Longrightarrow> i < length bs \<Longrightarrow>
     height (bs ! i) = h + int i \<and>
     nextblockhash (bs ! i) = (if Suc i < length bs then Some (hash (bs ! Suc i)) else None)"
proof (induction h bs arbitrary: i rule: linked_from.induct)
  case (1 h)
  then show ?case by simp
next
  case (2 h b)
  then show ?case by simp
next
  case (3 h b c bs)
  show ?case
  proof (cases i)
    case 0
    with "3.prems" show ?thesis by simp
  next
    case (Suc j)
    with "3.prems" have "height ((c # bs) ! j) = h + 1 + int j \<and>
        nextblockhash ((c # bs) ! j) =
          (if Suc j < length (c # bs) then Some (hash ((c # bs) ! Suc j)) else None)"
      by (intro "3.IH") auto
    with Suc show ?thesis by simp
  qed
qed

end
