(* ===== verification/State.thy ===== *)
theory State
  imports Store Rpc
begin

text \<open>
  The state the synchronisation run threads through \<open>fetch_new_blocks\<close> and
  \<open>parse_block\<close> (\<open>src/src/main.rs\<close>): the RocksDB handle's contents and the
  sequence of externally visible effects, in the order the code performs them. An
  \<open>event\<close> is one RPC call (\<open>client.getblockcount()\<close>, \<open>getblockhash\<close>,
  \<open>getblock\<close>, \<open>getrawtransaction\<close>) or one mutation of the store (\<open>db.put\<close>,
  \<open>db.write(batch)\<close>). Reads of the store (\<open>db.get\<close>, the iterator) and console
  output change nothing and are not recorded. A crash of the process after \<open>n\<close>
  effects leaves the store that the first \<open>n\<close> store mutations produce
  (\<open>replay_store\<close>), which is how the root theory reasons about restarts.
\<close>

datatype 'v event =
    RpcGetBlockCount
  | RpcGetBlockHash height
  | RpcGetBlock string
  | RpcGetRawTransaction string
  | DbPut key 'v
  | DbWrite "'v write_batch"

record 'v sync_state =
  st_db :: "'v db"
  st_events :: "'v event list"

definition rpc_call :: "'v event \<Rightarrow> 'v sync_state \<Rightarrow> 'v sync_state" where
  "rpc_call e s = s\<lparr>st_events := st_events s @ [e]\<rparr>"

definition st_put :: "key \<Rightarrow> 'v \<Rightarrow> 'v sync_state \<Rightarrow> 'v sync_state" where
  "st_put k v s = s\<lparr>st_db := db_put k v (st_db s), st_events := st_events s @ [DbPut k v]\<rparr>"

definition st_write :: "'v write_batch \<Rightarrow> 'v sync_state \<Rightarrow> 'v sync_state" where
  "st_write b s = s\<lparr>st_db := db_write b (st_db s), st_events := st_events s @ [DbWrite b]\<rparr>"

fun is_rpc :: "'v event \<Rightarrow> bool" where
  "is_rpc (DbPut k v) = False"
| "is_rpc (DbWrite b) = False"
| "is_rpc e = True"

definition rpc_calls :: "'v event list \<Rightarrow> 'v event list" where
  "rpc_calls es = filter is_rpc es"

fun apply_event :: "'v event \<Rightarrow> 'v db \<Rightarrow> 'v db" where
  "apply_event (DbPut k v) d = db_put k v d"
| "apply_event (DbWrite b) d = db_write b d"
| "apply_event e d = d"

definition replay_store :: "'v event list \<Rightarrow> 'v db \<Rightarrow> 'v db" where
  "replay_store es d = fold apply_event es d"

text \<open>An event that commits a batch holding something: the spec's batching at work.\<close>

fun batch_empty :: "'v event \<Rightarrow> bool" where
  "batch_empty (DbWrite b) = (b = [])"
| "batch_empty e = True"

text \<open>The key/value pairs an event stores, in order.\<close>

fun event_puts :: "'v event \<Rightarrow> 'v write_batch" where
  "event_puts (DbPut k v) = [(k, v)]"
| "event_puts (DbWrite b) = b"
| "event_puts e = []"

lemma replay_store_append:
  "replay_store (es @ fs) d = replay_store fs (replay_store es d)"
  by (simp add: replay_store_def)

lemma replay_store_Cons:
  "replay_store (e # es) d = replay_store es (apply_event e d)"
  by (simp add: replay_store_def)

lemma replay_store_Nil [simp]: "replay_store [] d = d"
  by (simp add: replay_store_def)

lemma replay_store_puts: "replay_store es d = db_write (concat (map event_puts es)) d"
proof (induction es arbitrary: d)
  case Nil
  then show ?case by simp
next
  case (Cons e es)
  then show ?case by (cases e) (simp_all add: replay_store_Cons db_write_Cons db_write_append)
qed

lemma rpc_calls_Nil [simp]: "rpc_calls [] = []"
  and rpc_calls_append [simp]: "rpc_calls (xs @ ys) = rpc_calls xs @ rpc_calls ys"
  and rpc_calls_Cons [simp]: "rpc_calls (e # es) = (if is_rpc e then e # rpc_calls es else rpc_calls es)"
  by (simp_all add: rpc_calls_def)

lemma rpc_call_effects [sync_simps]:
  "st_db (rpc_call e s) = st_db s" "st_events (rpc_call e s) = st_events s @ [e]"
  by (simp_all add: rpc_call_def)

lemma st_put_effects [sync_simps]:
  "st_db (st_put k v s) = db_put k v (st_db s)" "st_events (st_put k v s) = st_events s @ [DbPut k v]"
  by (simp_all add: st_put_def)

lemma st_write_effects [sync_simps]:
  "st_db (st_write b s) = db_write b (st_db s)" "st_events (st_write b s) = st_events s @ [DbWrite b]"
  by (simp_all add: st_write_def)

end
