(* ===== verification/Keys.thy ===== *)
theory Keys
  imports Prelude
begin

text \<open>
  The persisted key layout (spec section 6): a block is stored under
  \<open>"blockhash: "\<close> followed by its hash (\<open>format_hashes\<close>, \<open>src/src/main.rs\<close>
  lines 6--8), a transaction under \<open>"transaction:"\<close> followed by its id (the
  \<open>format!\<close> of line 100). The lemmas show that each key format is injective, that the
  two namespaces never collide, and that the stored key gives the hash or id back.
\<close>

definition format_hashes :: "string \<Rightarrow> key" where
  "format_hashes h = ''blockhash: '' @ h"

definition tx_key :: "string \<Rightarrow> key" where
  "tx_key t = ''transaction:'' @ t"

text \<open>Recovering the hash or id from a key: the inverse the key layout admits.\<close>

definition parse_block_key :: "key \<Rightarrow> string option" where
  "parse_block_key k =
     (if take 11 k = ''blockhash: '' then Some (drop 11 k) else None)"

definition parse_tx_key :: "key \<Rightarrow> string option" where
  "parse_tx_key k =
     (if take 12 k = ''transaction:'' then Some (drop 12 k) else None)"

lemma format_hashes_inj: "format_hashes h = format_hashes h' \<longleftrightarrow> h = h'"
  by (simp add: format_hashes_def)

lemma tx_key_inj: "tx_key t = tx_key t' \<longleftrightarrow> t = t'"
  by (simp add: tx_key_def)

lemma format_hashes_neq_tx_key [simp]: "format_hashes h \<noteq> tx_key t"
  by (simp add: format_hashes_def tx_key_def)

lemma tx_key_neq_format_hashes [simp]: "tx_key t \<noteq> format_hashes h"
  by (simp add: format_hashes_def tx_key_def)

lemma parse_block_key_format_hashes [simp]: "parse_block_key (format_hashes h) = Some h"
  by (simp add: parse_block_key_def format_hashes_def)

lemma parse_tx_key_tx_key [simp]: "parse_tx_key (tx_key t) = Some t"
  by (simp add: parse_tx_key_def tx_key_def)

lemma parse_block_key_tx_key [simp]: "parse_block_key (tx_key t) = None"
  by (simp add: parse_block_key_def tx_key_def)

lemma parse_tx_key_format_hashes [simp]: "parse_tx_key (format_hashes h) = None"
  by (simp add: parse_tx_key_def format_hashes_def)

lemma parse_block_key_Some:
  assumes "parse_block_key k = Some h"
  shows "k = format_hashes h"
proof -
  from assms have "take 11 k = ''blockhash: ''" and "h = drop 11 k"
    by (simp_all add: parse_block_key_def split: if_splits)
  then show ?thesis
    by (metis append_take_drop_id format_hashes_def)
qed

lemma format_hashes_less_tx_key: "format_hashes h < tx_key t"
  by (simp add: format_hashes_def tx_key_def)

text \<open>
  C34. The key layout of spec section 6 is collision-free: the block key of
  \<open>format_hashes\<close> and the transaction key are each injective, the two namespaces
  are disjoint, and each key gives back exactly the hash or id it was built from.
\<close>

theorem key_layout_roundtrip:
  "(format_hashes h = format_hashes h' \<longleftrightarrow> h = h') \<and>
   (tx_key t = tx_key t' \<longleftrightarrow> t = t') \<and>
   format_hashes h \<noteq> tx_key t \<and>
   parse_block_key (format_hashes h) = Some h \<and> parse_tx_key (format_hashes h) = None \<and>
   parse_tx_key (tx_key t) = Some t \<and> parse_block_key (tx_key t) = None"
  by (simp add: format_hashes_inj tx_key_inj)

end
