(* ===== verification/Enricher.thy ===== *)
theory Enricher
  imports State Keys
begin

text \<open>
  The block enricher, \<open>parse_block\<close> (\<open>src/src/main.rs\<close> lines 89--161). It
  puts the serialised block under \<open>format_hashes (hash b)\<close> straight into the
  database, then, for each transaction id of the block in order, calls
  \<open>getrawtransaction(id, true)\<close>; on success it assembles a
  \<open>GetRawTransactionInfo\<close> whose \<open>txid\<close> is the requested id and whose other
  fields are the response's (\<open>assemble_tx\<close>, lines 106--127), and puts its
  serialisation under \<open>"transaction:" ++ id\<close> twice (lines 135 and 144, the same key
  and value), reading it back only to log its length; on failure it logs and goes on
  with the next id (\<open>store_tx\<close>). The \<open>for\<close> loop is a \<open>fold\<close> over \<open>tx b\<close>.

  Every write is a direct \<open>db.put\<close>: none goes into the caller's write batch.
  The lemmas give the exact sequence of effects of one block (\<open>parse_block_events\<close>:
  the block first, then each transaction in listed order), show that the store it
  leaves is the one a single batch of the block's entries would leave
  (\<open>parse_block_db\<close>), and that a failing transaction costs only its own entry.
\<close>

definition assemble_tx :: "string \<Rightarrow> 'd raw_tx_info \<Rightarrow> 'd raw_tx_info" where
  "assemble_tx transaction tx_data = tx_data\<lparr>txid := transaction\<rparr>"

definition store_tx ::
  "'d client \<Rightarrow> ('v, 'd) codec \<Rightarrow> string \<Rightarrow> 'v sync_state \<Rightarrow> 'v sync_state" where
  "store_tx client cd transaction s =
     (let k = tx_key transaction;
          s1 = rpc_call (RpcGetRawTransaction transaction) s
      in case getrawtransaction client transaction True of
           Inl err \<Rightarrow> s1
         | Inr tx_data \<Rightarrow>
             (let transaction_info = assemble_tx transaction tx_data;
                  s2 = st_put k (serialize_tx cd transaction_info) s1
              in st_put k (serialize_tx cd transaction_info) s2))"

definition parse_block ::
  "'d client \<Rightarrow> ('v, 'd) codec \<Rightarrow> full_block \<Rightarrow> 'v sync_state \<Rightarrow> 'v sync_state" where
  "parse_block client cd block s =
     fold (store_tx client cd) (tx block)
       (st_put (format_hashes (hash block)) (serialize_block cd block) s)"

subsection \<open>The block's entries and effects, as lists\<close>

text \<open>
  The specification of one block's work: the key/value entries it stores, in order,
  and the events it produces. The store entries are what the spec's Block Enricher
  adds to the batch (section 4.3).
\<close>

definition tx_entries :: "'d client \<Rightarrow> ('v, 'd) codec \<Rightarrow> string \<Rightarrow> 'v write_batch" where
  "tx_entries client cd t =
     (case getrawtransaction client t True of
        Inl err \<Rightarrow> []
      | Inr d \<Rightarrow> [(tx_key t, serialize_tx cd (assemble_tx t d))])"

definition block_entries :: "'d client \<Rightarrow> ('v, 'd) codec \<Rightarrow> full_block \<Rightarrow> 'v write_batch" where
  "block_entries client cd b =
     (format_hashes (hash b), serialize_block cd b) # concat (map (tx_entries client cd) (tx b))"

definition tx_events :: "'d client \<Rightarrow> ('v, 'd) codec \<Rightarrow> string \<Rightarrow> 'v event list" where
  "tx_events client cd t =
     RpcGetRawTransaction t #
       (case getrawtransaction client t True of
          Inl err \<Rightarrow> []
        | Inr d \<Rightarrow> [DbPut (tx_key t) (serialize_tx cd (assemble_tx t d)),
                    DbPut (tx_key t) (serialize_tx cd (assemble_tx t d))])"

definition block_events :: "'d client \<Rightarrow> ('v, 'd) codec \<Rightarrow> full_block \<Rightarrow> 'v event list" where
  "block_events client cd b =
     DbPut (format_hashes (hash b)) (serialize_block cd b) #
       concat (map (tx_events client cd) (tx b))"

lemma store_tx_db: "st_db (store_tx cl cd t s) = db_write (tx_entries cl cd t) (st_db s)"
  by (simp add: store_tx_def tx_entries_def sync_simps Let_def db_put_idem db_write_Cons
      split: sum.split)

lemma store_tx_events: "st_events (store_tx cl cd t s) = st_events s @ tx_events cl cd t"
  by (simp add: store_tx_def tx_events_def sync_simps Let_def split: sum.split)

lemma fold_store_tx_db:
  "st_db (fold (store_tx cl cd) ts s) = db_write (concat (map (tx_entries cl cd) ts)) (st_db s)"
  by (induction ts arbitrary: s) (simp_all add: store_tx_db db_write_append)

lemma fold_store_tx_events:
  "st_events (fold (store_tx cl cd) ts s) = st_events s @ concat (map (tx_events cl cd) ts)"
  by (induction ts arbitrary: s) (simp_all add: store_tx_events)

lemma parse_block_db:
  "st_db (parse_block cl cd b s) = db_write (block_entries cl cd b) (st_db s)"
  by (simp add: parse_block_def block_entries_def fold_store_tx_db sync_simps db_write_Cons)

lemma parse_block_events:
  "st_events (parse_block cl cd b s) = st_events s @ block_events cl cd b"
  by (simp add: parse_block_def block_events_def fold_store_tx_events sync_simps)

lemma replay_tx_events:
  "replay_store (tx_events cl cd t) d = db_write (tx_entries cl cd t) d"
  by (simp add: tx_events_def tx_entries_def replay_store_def db_put_idem db_write_Cons
      split: sum.split)

lemma replay_block_events:
  "replay_store (block_events cl cd b) d = db_write (block_entries cl cd b) d"
proof -
  have "replay_store (concat (map (tx_events cl cd) ts)) d =
      db_write (concat (map (tx_entries cl cd) ts)) d" for ts d
    by (induction ts arbitrary: d) (simp_all add: replay_store_append replay_tx_events db_write_append)
  then show ?thesis
    by (simp add: block_events_def block_entries_def replay_store_Cons db_write_Cons)
qed

lemma block_events_batch_empty: "list_all batch_empty (block_events cl cd b)"
  by (auto simp: block_events_def tx_events_def list_all_iff split: sum.splits)

lemma parse_block_effects:
  "st_events (parse_block cl cd b (rpc_call e s)) = st_events s @ e # block_events cl cd b"
  "st_db (parse_block cl cd b (rpc_call e s)) = db_write (block_entries cl cd b) (st_db s)"
  by (simp_all add: parse_block_events parse_block_db sync_simps)

lemma rpc_calls_block_events:
  "rpc_calls (block_events cl cd b) = map RpcGetRawTransaction (tx b)"
proof -
  have "rpc_calls (concat (map (tx_events cl cd) ts)) = map RpcGetRawTransaction ts" for ts
    by (induction ts) (simp_all add: tx_events_def split: sum.split)
  then show ?thesis by (simp add: block_events_def)
qed

text \<open>
  C27. Refinement of the Block Enricher's contract (spec section 4.3): on a well-formed
  store, \<open>parse_block\<close> leaves a well-formed store whose contents are the old ones
  updated with the block's entries (the block record, then each successfully fetched
  transaction), exactly as committing them as one batch would.
\<close>

theorem parse_block_refines_batch:
  assumes "db_wf (st_db s)"
  shows "db_wf (st_db (parse_block cl cd b s)) \<and>
         map_of (st_db (parse_block cl cd b s)) = map_of (st_db s) ++ map_of (rev (block_entries cl cd b))"
  using assms by (simp add: parse_block_db db_write_wf map_of_db_write)

text \<open>
  C28. Per-transaction isolation (spec section 8): whatever happens to the other
  transactions of a block, the block record is stored, and every transaction id whose
  \<open>getrawtransaction\<close> succeeds is stored under its key with the assembled record,
  whose \<open>txid\<close> is the requested id.
\<close>

theorem parse_block_tx_isolation:
  assumes "db_wf (st_db s)"
    and "t \<in> set (tx b)" and "getrawtransaction cl t True = Inr d"
  shows "map_of (st_db (parse_block cl cd b s)) (format_hashes (hash b)) = Some (serialize_block cd b) \<and>
         map_of (st_db (parse_block cl cd b s)) (tx_key t) =
           Some (serialize_tx cd (d\<lparr>txid := t\<rparr>))"
proof -
  let ?es = "rev (block_entries cl cd b)"
  have same: "v' = serialize_tx cd (assemble_tx t d)"
    if "(tx_key t, v') \<in> set ?es" for v'
    using that assms(3) by (auto simp: block_entries_def tx_entries_def tx_key_inj split: sum.splits)
  have "(tx_key t, serialize_tx cd (assemble_tx t d)) \<in> set ?es"
    using assms(2,3) by (force simp: block_entries_def tx_entries_def)
  then obtain v' where "map_of ?es (tx_key t) = Some v'"
    by (metis map_of_eq_None_iff option.exhaust image_eqI fst_conv)
  with same have tx: "map_of ?es (tx_key t) = Some (serialize_tx cd (assemble_tx t d))"
    by (auto dest: map_of_SomeD)
  have blk: "map_of ?es (format_hashes (hash b)) = Some (serialize_block cd b)"
  proof -
    have "map_of (rev (concat (map (tx_entries cl cd) (tx b)))) (format_hashes (hash b)) = None"
      by (auto simp: map_of_eq_None_iff tx_entries_def split: sum.splits)
    then show ?thesis by (simp add: block_entries_def map_add_def)
  qed
  from assms(1) tx blk show ?thesis
    by (simp add: parse_block_db map_of_db_write assemble_tx_def)
qed

text \<open>
  C29. Ordering within a block: the block record is the first thing \<open>parse_block\<close>
  writes, before any of its transactions is requested or written; after it come exactly
  one \<open>getrawtransaction\<close> per transaction id, in the block's order.
\<close>

theorem parse_block_writes_block_first:
  "\<exists>rest. st_events (parse_block cl cd b s) =
           st_events s @ DbPut (format_hashes (hash b)) (serialize_block cd b) # rest \<and>
         rpc_calls rest = map RpcGetRawTransaction (tx b)"
proof -
  have "rpc_calls (concat (map (tx_events cl cd) (tx b))) = map RpcGetRawTransaction (tx b)"
    using rpc_calls_block_events [of cl cd b] by (simp add: block_events_def)
  then show ?thesis by (simp add: parse_block_events block_events_def)
qed

end
