(* ===== verification/Watermark.thy ===== *)
theory Watermark
  imports Store Rpc Keys
begin

text \<open>
  The watermark resolver, \<open>get_db_height\<close> (\<open>src/src/main.rs\<close> lines 163--194):
  one pass over every entry of the store in key order, trying to deserialise each
  value as a \<open>FullBlock\<close> and keeping the largest height seen, starting from the
  sentinel \<open>-1\<close>. A value that is not a block is only logged (an
  \<open>InvalidUtf8Encoding\<close> error directly, any other error after a second attempt to
  decode it as a transaction), so both error branches leave the running maximum as it
  is. The \<open>while let Some(Ok(..))\<close> loop is \<open>scan_items\<close>, over the iterator's
  \<open>Result\<close> items: it ends at the first storage error. The store of the model never
  fails, so \<open>get_db_height\<close> runs it over every entry (\<open>get_db_height_fold\<close>).

  The lemmas give the loop's reference meaning (the maximum of \<open>-1\<close> and the
  heights of the decodable blocks, \<open>fold_scan_step_Max\<close>), its lower bound, its
  monotonicity under growth of the store, and what it reads after a block is stored.
\<close>

definition scan_step :: "('v, 'd) codec \<Rightarrow> key \<times> 'v \<Rightarrow> height \<Rightarrow> height" where
  "scan_step cd e max_height =
     (case deserialize_block cd (snd e) of
        Inr block \<Rightarrow> (if height block > max_height then height block else max_height)
      | Inl InvalidUtf8Encoding \<Rightarrow> max_height
      | Inl OtherDecodeError \<Rightarrow>
          (case deserialize_tx cd (snd e) of Inr t \<Rightarrow> max_height | Inl err \<Rightarrow> max_height))"

text \<open>
  The \<open>while let Some(Ok((_key, value))) = iter.next()\<close> loop: it stops at the end of
  the iteration and at the first item that is an error.
\<close>

fun scan_items :: "('v, 'd) codec \<Rightarrow> 'v db_item list \<Rightarrow> height \<Rightarrow> height" where
  "scan_items cd [] max_height = max_height"
| "scan_items cd (Inl err # items) max_height = max_height"
| "scan_items cd (Inr e # items) max_height = scan_items cd items (scan_step cd e max_height)"

definition get_db_height :: "('v, 'd) codec \<Rightarrow> 'v db \<Rightarrow> height" where
  "get_db_height cd d = scan_items cd (db_iterator d) (-1)"

text \<open>The reference: the blocks the scan can decode, in store order.\<close>

fun decoded_blocks :: "('v, 'd) codec \<Rightarrow> 'v db \<Rightarrow> full_block list" where
  "decoded_blocks cd [] = []"
| "decoded_blocks cd ((k, v) # es) =
     (case deserialize_block cd v of
        Inr b \<Rightarrow> b # decoded_blocks cd es
      | Inl err \<Rightarrow> decoded_blocks cd es)"

lemma scan_items_map_Inr: "scan_items cd (map Inr es) m = fold (scan_step cd) es m"
  by (induction es arbitrary: m) simp_all

lemma get_db_height_fold: "get_db_height cd d = fold (scan_step cd) d (-1)"
  by (simp add: get_db_height_def db_iterator_def scan_items_map_Inr)

lemma scan_step_eq:
  "scan_step cd e m =
     (case deserialize_block cd (snd e) of Inr b \<Rightarrow> max (height b) m | Inl err \<Rightarrow> m)"
  by (auto simp: scan_step_def split: sum.split decode_error.split)

lemma fold_scan_step_Max:
  "fold (scan_step cd) d m = Max (insert m (height ` set (decoded_blocks cd d)))"
proof (induction d arbitrary: m)
  case Nil
  then show ?case by simp
next
  case (Cons e es)
  obtain k v where e: "e = (k, v)" by fastforce
  show ?case
  proof (cases "deserialize_block cd v")
    case (Inl err)
    with Cons.IH show ?thesis by (simp add: e scan_step_eq)
  next
    case (Inr b)
    with Cons.IH show ?thesis
      by (simp add: e scan_step_eq Max_insert_max insert_commute)
  qed
qed

lemma set_decoded_blocks:
  "set (decoded_blocks cd d) = {b. \<exists>k v. (k, v) \<in> set d \<and> deserialize_block cd v = Inr b}"
  by (induction cd d rule: decoded_blocks.induct) (auto split: sum.splits)

lemma db_wf_map_le_subset:
  assumes "db_wf d" and "db_wf d'" and "map_of d \<subseteq>\<^sub>m map_of d'"
  shows "set d \<subseteq> set d'"
proof
  fix e assume "e \<in> set d"
  obtain k v where e: "e = (k, v)" by fastforce
  from assms(1) have "distinct (map fst d)" by (rule db_wf_distinct)
  with \<open>e \<in> set d\<close> have "map_of d k = Some v" by (simp add: e)
  with assms(3) have "map_of d' k = Some v" by (auto simp: map_le_def dom_def)
  then show "e \<in> set d'" by (simp add: e map_of_SomeD)
qed

lemma get_db_height_ge:
  assumes "(k, v) \<in> set d" "deserialize_block cd v = Inr b"
  shows "height b \<le> get_db_height cd d"
proof -
  have "b \<in> set (decoded_blocks cd d)" using assms by (auto simp: set_decoded_blocks)
  then have "height b \<in> insert (-1) (height ` set (decoded_blocks cd d))" by simp
  then have "height b \<le> Max (insert (-1) (height ` set (decoded_blocks cd d)))" by simp
  then show ?thesis by (simp add: get_db_height_fold fold_scan_step_Max)
qed

lemma get_db_height_sentinel: "-1 \<le> get_db_height cd d"
  by (simp add: get_db_height_fold fold_scan_step_Max)

text \<open>The watermark is \<open>H \<ge> -1\<close> when \<open>H\<close> bounds every decodable height and is one of them or the sentinel.\<close>

lemma get_db_height_eqI:
  assumes "\<And>b. b \<in> set (decoded_blocks cd d) \<Longrightarrow> height b \<le> H"
    and "H \<in> insert (-1) (height ` set (decoded_blocks cd d))" and ge: "-1 \<le> H"
  shows "get_db_height cd d = H"
proof -
  have "Max (insert (-1) (height ` set (decoded_blocks cd d))) = H"
  proof (rule Max_eqI)
    show "finite (insert (-1) (height ` set (decoded_blocks cd d)))" by simp
    show "y \<le> H" if "y \<in> insert (-1) (height ` set (decoded_blocks cd d))" for y
      using that ge assms(1) by auto
  qed (rule assms(2))
  then show ?thesis by (simp add: get_db_height_fold fold_scan_step_Max)
qed

lemma get_db_height_subset:
  assumes "set d \<subseteq> set d'"
  shows "get_db_height cd d \<le> get_db_height cd d'"
proof -
  from assms have "set (decoded_blocks cd d) \<subseteq> set (decoded_blocks cd d')"
    by (auto simp: set_decoded_blocks)
  then have "Max (insert (-1) (height ` set (decoded_blocks cd d))) \<le>
      Max (insert (-1) (height ` set (decoded_blocks cd d')))"
    by (intro Max_mono) auto
  then show ?thesis by (simp add: get_db_height_fold fold_scan_step_Max)
qed

lemma scan_items_append:
  "scan_items cd (map Inr es @ items) m = scan_items cd items (fold (scan_step cd) es m)"
  by (induction es arbitrary: m) simp_all

text \<open>
  C23. The watermark scan computes the maximum of the sentinel \<open>-1\<close> and the heights
  of all store values that deserialise as a block: the \<open>while let\<close> loop of
  \<open>get_db_height\<close> equals this reference definition, for any store and codec.
\<close>

theorem get_db_height_Max:
  "get_db_height cd d = Max (insert (-1) (height ` set (decoded_blocks cd d)))"
  by (simp add: get_db_height_fold fold_scan_step_Max)

text \<open>
  C24. Monotonic watermark (spec section 8): if a store only grows (every entry it held
  is still there with the same value), its watermark does not decrease.
\<close>

theorem get_db_height_mono:
  assumes "db_wf d" and "db_wf d'" and "map_of d \<subseteq>\<^sub>m map_of d'"
  shows "get_db_height cd d \<le> get_db_height cd d'"
  using db_wf_map_le_subset [OF assms] by (rule get_db_height_subset)

text \<open>
  C26. Iterator errors (the \<open>Ok\<close> pattern of line 167): if the store's iterator fails
  after the first \<open>i\<close> entries, the scan stops there and returns the watermark of
  those entries alone, which is never above the store's real watermark. A failing
  iterator can make a run start lower and fetch again what is stored, never higher.
\<close>

theorem scan_items_stops_at_iterator_error:
  "scan_items cd (db_iterator (take i d) @ Inl err # rest) (-1) = get_db_height cd (take i d) \<and>
   get_db_height cd (take i d) \<le> get_db_height cd d"
proof
  show "scan_items cd (db_iterator (take i d) @ Inl err # rest) (-1) = get_db_height cd (take i d)"
    by (simp add: db_iterator_def scan_items_append get_db_height_fold scan_items_map_Inr)
  show "get_db_height cd (take i d) \<le> get_db_height cd d"
    by (rule get_db_height_subset) (rule set_take_subset)
qed

end
