(* ===== verification/Walker.thy ===== *)
theory Walker
  imports Enricher Watermark
begin

text \<open>
  The chain walker, \<open>fetch_new_blocks\<close> (\<open>src/src/main.rs\<close> lines 10--87).
  It asks the node for its block count (and returns at once if that fails), scans
  the store for the watermark, asks for the hash at \<open>watermark + 1\<close> (and returns
  if that fails, without writing the batch), and then loops (\<open>walk\<close>, lines
  47--84): fetch the block by hash (on failure leave the loop), enrich and store it
  with \<open>parse_block\<close>, and if it has a \<open>nextblockhash\<close>, write the batch when the
  running height is a multiple of 100, count the height up and continue with the
  successor; otherwise leave the loop. After the loop the batch is written once more.
  The batch starts empty (\<open>WriteBatch::default()\<close>) and, as the code never adds to
  it, every write commits an empty batch. The block count is read but never used.

  The loop follows hashes the node supplies, so nothing in the code bounds it: it is a
  \<open>partial_function (option)\<close>, \<open>None\<close> being a run that never returns.
  \<open>chain_blocks\<close> follows the same successor links with fuel and is the reference
  the walk is proved against: when the links end within the fuel, the walk returns,
  and the store it leaves is the one the visited blocks' entries give.
\<close>

partial_function (option) walk ::
  "'d client \<Rightarrow> ('v, 'd) codec \<Rightarrow> height \<Rightarrow> string \<Rightarrow> 'v write_batch \<Rightarrow> 'v sync_state
     \<Rightarrow> ('v write_batch \<times> 'v sync_state) option"
where
  "walk client cd current_block_height block_hash batch s =
     (let s1 = rpc_call (RpcGetBlock block_hash) s
      in case getblock client block_hash of
           Inl err \<Rightarrow> Some (batch, s1)
         | Inr block \<Rightarrow>
             (let s2 = parse_block client cd block s1
              in case nextblockhash block of
                   None \<Rightarrow> Some (batch, s2)
                 | Some next_block_hash \<Rightarrow>
                     (if current_block_height mod 100 = 0
                      then walk client cd (current_block_height + 1) next_block_hash []
                             (st_write batch s2)
                      else walk client cd (current_block_height + 1) next_block_hash batch s2)))"

definition fetch_new_blocks ::
  "'d client \<Rightarrow> ('v, 'd) codec \<Rightarrow> 'v sync_state \<Rightarrow> 'v sync_state option" where
  "fetch_new_blocks client cd s =
     (let s0 = rpc_call RpcGetBlockCount s
      in case getblockcount client of
           Inl err \<Rightarrow> Some s0
         | Inr best_block_height \<Rightarrow>
             (let db_height = get_db_height cd (st_db s0);
                  current_block_height = db_height + 1;
                  s1 = rpc_call (RpcGetBlockHash current_block_height) s0
              in case getblockhash client current_block_height of
                   Inl err \<Rightarrow> Some s1
                 | Inr block_hash \<Rightarrow>
                     map_option (\<lambda>(batch, s2). st_write batch s2)
                       (walk client cd current_block_height block_hash [] s1)))"

subsection \<open>The reference traversal\<close>

fun chain_blocks :: "'d client \<Rightarrow> nat \<Rightarrow> string \<Rightarrow> full_block list option" where
  "chain_blocks client 0 bh = None"
| "chain_blocks client (Suc n) bh =
     (case getblock client bh of
        Inl err \<Rightarrow> Some []
      | Inr b \<Rightarrow>
          (case nextblockhash b of
             None \<Rightarrow> Some [b]
           | Some nh \<Rightarrow> map_option (Cons b) (chain_blocks client n nh)))"

text \<open>The RPC calls the same traversal makes, in order.\<close>

fun chain_rpcs :: "'d client \<Rightarrow> nat \<Rightarrow> string \<Rightarrow> 'v event list" where
  "chain_rpcs client 0 bh = []"
| "chain_rpcs client (Suc n) bh =
     RpcGetBlock bh #
       (case getblock client bh of
          Inl err \<Rightarrow> []
        | Inr b \<Rightarrow> map RpcGetRawTransaction (tx b) @
            (case nextblockhash b of None \<Rightarrow> [] | Some nh \<Rightarrow> chain_rpcs client n nh))"

lemmas walk_unfold = walk.simps

lemma walk_getblock_Inl:
  "getblock cl bh = Inl err \<Longrightarrow> walk cl cd h bh bt s = Some (bt, rpc_call (RpcGetBlock bh) s)"
  by (simp add: walk_unfold)

lemma walk_tip:
  "getblock cl bh = Inr b \<Longrightarrow> nextblockhash b = None \<Longrightarrow>
     walk cl cd h bh bt s = Some (bt, parse_block cl cd b (rpc_call (RpcGetBlock bh) s))"
  by (simp add: walk_unfold)

lemma walk_next:
  "getblock cl bh = Inr b \<Longrightarrow> nextblockhash b = Some nh \<Longrightarrow>
     walk cl cd h bh bt s =
       (let s2 = parse_block cl cd b (rpc_call (RpcGetBlock bh) s)
        in if h mod 100 = 0 then walk cl cd (h + 1) nh [] (st_write bt s2)
           else walk cl cd (h + 1) nh bt s2)"
  by (simp add: walk_unfold)

lemma walk_Some_induct [consumes 1, case_names getblock_error tip step]:
  assumes ret: "walk cl cd h bh bt s = Some r"
    and err: "\<And>cl cd h bh bt s e. getblock cl bh = Inl e \<Longrightarrow>
        P cl cd h bh bt s (bt, rpc_call (RpcGetBlock bh) s)"
    and tip: "\<And>cl cd h bh bt s b. getblock cl bh = Inr b \<Longrightarrow> nextblockhash b = None \<Longrightarrow>
        P cl cd h bh bt s (bt, parse_block cl cd b (rpc_call (RpcGetBlock bh) s))"
    and step: "\<And>cl cd h bh bt s b nh r. getblock cl bh = Inr b \<Longrightarrow> nextblockhash b = Some nh \<Longrightarrow>
        walk cl cd (h + 1) nh (if h mod 100 = 0 then [] else bt)
          (if h mod 100 = 0 then st_write bt (parse_block cl cd b (rpc_call (RpcGetBlock bh) s))
           else parse_block cl cd b (rpc_call (RpcGetBlock bh) s)) = Some r \<Longrightarrow>
        P cl cd (h + 1) nh (if h mod 100 = 0 then [] else bt)
          (if h mod 100 = 0 then st_write bt (parse_block cl cd b (rpc_call (RpcGetBlock bh) s))
           else parse_block cl cd b (rpc_call (RpcGetBlock bh) s)) r \<Longrightarrow>
        P cl cd h bh bt s r"
  shows "P cl cd h bh bt s r"
proof -
  have "walk cl cd h bh bt s = Some r \<and> P cl cd h bh bt s r"
  proof (rule walk.raw_induct [where P = "\<lambda>cl cd h bh bt s r. walk cl cd h bh bt s = Some r \<and> P cl cd h bh bt s r", OF _ ret])
    fix walk' cl cd h bh bt s r
    assume IH: "\<And>cl cd h bh bt s r. walk' cl cd h bh bt s = Some r \<Longrightarrow>
        walk cl cd h bh bt s = Some r \<and> P cl cd h bh bt s r"
      and eq: "(let s1 = rpc_call (RpcGetBlock bh) s
      in case getblock cl bh of
           Inl err \<Rightarrow> Some (bt, s1)
         | Inr block \<Rightarrow>
             (let s2 = parse_block cl cd block s1
              in case nextblockhash block of
                   None \<Rightarrow> Some (bt, s2)
                 | Some next_block_hash \<Rightarrow>
                     (if h mod 100 = 0
                      then walk' cl cd (h + 1) next_block_hash [] (st_write bt s2)
                      else walk' cl cd (h + 1) next_block_hash bt s2))) = Some r"
    show "walk cl cd h bh bt s = Some r \<and> P cl cd h bh bt s r"
    proof (cases "getblock cl bh")
      case (Inl e)
      with eq have "r = (bt, rpc_call (RpcGetBlock bh) s)" by simp
      with Inl show ?thesis by (simp add: walk_getblock_Inl err)
    next
      case (Inr b)
      show ?thesis
      proof (cases "nextblockhash b")
        case None
        with Inr eq have "r = (bt, parse_block cl cd b (rpc_call (RpcGetBlock bh) s))" by simp
        with Inr None show ?thesis by (simp add: walk_tip tip)
      next
        case (Some nh)
        let ?s2 = "parse_block cl cd b (rpc_call (RpcGetBlock bh) s)"
        from Inr Some eq have "walk' cl cd (h + 1) nh (if h mod 100 = 0 then [] else bt)
            (if h mod 100 = 0 then st_write bt ?s2 else ?s2) = Some r"
          by (simp add: Let_def split: if_splits)
        from IH [OF this] have rec: "walk cl cd (h + 1) nh (if h mod 100 = 0 then [] else bt)
            (if h mod 100 = 0 then st_write bt ?s2 else ?s2) = Some r"
          and p: "P cl cd (h + 1) nh (if h mod 100 = 0 then [] else bt)
            (if h mod 100 = 0 then st_write bt ?s2 else ?s2) r" by blast+
        have "walk cl cd h bh bt s = Some r"
          using rec Inr Some by (simp add: walk_next Let_def split: if_splits)
        with step [OF Inr Some rec p] show ?thesis by blast
      qed
    qed
  qed
  then show ?thesis by blast
qed

lemma parse_block_rpc_call_db:
  "st_db (parse_block cl cd b (rpc_call e s)) = db_write (block_entries cl cd b) (st_db s)"
  by (simp add: parse_block_db sync_simps)

lemma walk_chain_blocks:
  "chain_blocks cl n bh = Some bs \<Longrightarrow>
     \<exists>s'. walk cl cd h bh [] s = Some ([], s') \<and>
          st_db s' = db_write (concat (map (block_entries cl cd) bs)) (st_db s) \<and>
          rpc_calls (st_events s') = rpc_calls (st_events s) @ chain_rpcs cl n bh"
proof (induction n arbitrary: h bh bs s)
  case 0
  then show ?case by simp
next
  case (Suc n)
  show ?case
  proof (cases "getblock cl bh")
    case (Inl err)
    with Suc.prems show ?thesis
      by (simp add: walk_getblock_Inl sync_simps)
  next
    case (Inr b)
    have r2: "rpc_calls (st_events (parse_block cl cd b (rpc_call (RpcGetBlock bh) s))) =
        rpc_calls (st_events s) @ RpcGetBlock bh # map RpcGetRawTransaction (tx b)"
      by (simp add: parse_block_effects rpc_calls_block_events sync_simps)
    show ?thesis
    proof (cases "nextblockhash b")
      case None
      with Inr Suc.prems r2 show ?thesis by (auto simp: walk_tip parse_block_effects)
    next
      case (Some nh)
      with Inr Suc.prems obtain bs' where bs': "chain_blocks cl n nh = Some bs'"
        and bs: "bs = b # bs'" by auto
      let ?s2 = "parse_block cl cd b (rpc_call (RpcGetBlock bh) s)"
      let ?s3 = "if h mod 100 = 0 then st_write [] ?s2 else ?s2"
      from Suc.IH [OF bs', of "h + 1" ?s3] obtain s' where
        w: "walk cl cd (h + 1) nh [] ?s3 = Some ([], s')" and
        d: "st_db s' = db_write (concat (map (block_entries cl cd) bs')) (st_db ?s3)" and
        r: "rpc_calls (st_events s') = rpc_calls (st_events ?s3) @ chain_rpcs cl n nh"
        by blast
      have "walk cl cd h bh [] s = walk cl cd (h + 1) nh [] ?s3"
        using Inr Some by (simp add: walk_next Let_def)
      moreover have "st_db ?s3 = db_write (block_entries cl cd b) (st_db s)"
        by (simp add: parse_block_effects sync_simps)
      moreover have "rpc_calls (st_events ?s3) = rpc_calls (st_events ?s2)"
        by (simp add: sync_simps)
      ultimately show ?thesis
        using w d r r2 Inr Some by (simp add: bs db_write_append)
    qed
  qed
qed

lemma walk_Some_chain_blocks:
  assumes "walk cl cd h bh bt s = Some r"
  shows "\<exists>n bs. chain_blocks cl n bh = Some bs"
  using assms
proof (induction rule: walk_Some_induct)
  case (getblock_error cl cd h bh bt s e)
  then have "chain_blocks cl 1 bh = Some []" by simp
  then show ?case by blast
next
  case (tip cl cd h bh bt s b)
  then have "chain_blocks cl 1 bh = Some [b]" by simp
  then show ?case by blast
next
  case (step cl cd h bh bt s b nh r)
  then obtain n bs where "chain_blocks cl n nh = Some bs" by blast
  with step.hyps(1,2) have "chain_blocks cl (Suc n) bh = Some (b # bs)" by simp
  then show ?case by blast
qed

lemma walk_self_loop_None:
  assumes "getblock cl bh = Inr b" and "nextblockhash b = Some bh"
  shows "walk cl cd h bh bt s = None"
proof -
  have loop: "\<not> (cl' = cl \<and> bh' = bh)" if "walk cl' cd' h' bh' bt' s' = Some r" for cl' cd' h' bh' bt' s' r
    using that
  proof (induction rule: walk_Some_induct)
    case (getblock_error cl' cd h bh' bt s e)
    with assms(1) show ?case by auto
  next
    case (tip cl' cd h bh' bt s b')
    with assms show ?case by auto
  next
    case (step cl' cd h bh' bt s b' nh r)
    with assms show ?case by auto
  qed
  show ?thesis
  proof (rule ccontr)
    assume "walk cl cd h bh bt s \<noteq> None"
    then obtain r where "walk cl cd h bh bt s = Some r" by blast
    from loop [OF this] show False by simp
  qed
qed

lemma walk_effects:
  assumes "walk cl cd h bh bt s = Some r"
  shows "\<exists>es. st_events (snd r) = st_events s @ es \<and> st_db (snd r) = replay_store es (st_db s) \<and>
           (bt = [] \<longrightarrow> fst r = [] \<and> list_all batch_empty es)"
  using assms
proof (induction rule: walk_Some_induct)
  case (getblock_error cl cd h bh bt s e)
  have "st_events (rpc_call (RpcGetBlock bh) s) = st_events s @ [RpcGetBlock bh] \<and>
      st_db (rpc_call (RpcGetBlock bh) s) = replay_store [RpcGetBlock bh] (st_db s)"
    by (simp add: sync_simps replay_store_Cons)
  then show ?case by fastforce
next
  case (tip cl cd h bh bt s b)
  let ?es2 = "RpcGetBlock bh # block_events cl cd b"
  have "st_events (parse_block cl cd b (rpc_call (RpcGetBlock bh) s)) = st_events s @ ?es2 \<and>
      st_db (parse_block cl cd b (rpc_call (RpcGetBlock bh) s)) = replay_store ?es2 (st_db s) \<and>
      list_all batch_empty ?es2"
    by (simp add: parse_block_effects replay_store_Cons replay_block_events block_events_batch_empty)
  then show ?case by fastforce
next
  case (step cl cd h bh bt s b nh r)
  let ?s2 = "parse_block cl cd b (rpc_call (RpcGetBlock bh) s)"
  let ?es2 = "RpcGetBlock bh # block_events cl cd b"
  have s2: "st_events ?s2 = st_events s @ ?es2" "st_db ?s2 = replay_store ?es2 (st_db s)"
    by (simp_all add: parse_block_effects replay_store_Cons replay_block_events)
  have b2: "list_all batch_empty ?es2" by (simp add: block_events_batch_empty)
  show ?case
  proof (cases "h mod 100 = 0")
    case True
    with step.IH obtain es where
      e: "st_events (snd r) = st_events (st_write bt ?s2) @ es" and
      d: "st_db (snd r) = replay_store es (st_db (st_write bt ?s2))" and
      f: "fst r = [] \<and> list_all batch_empty es" by auto
    have "st_events (snd r) = st_events s @ (?es2 @ DbWrite bt # es) \<and>
        st_db (snd r) = replay_store (?es2 @ DbWrite bt # es) (st_db s) \<and>
        (bt = [] \<longrightarrow> fst r = [] \<and> list_all batch_empty (?es2 @ DbWrite bt # es))"
      using e d f s2 b2 by (simp add: sync_simps replay_store_append replay_store_Cons)
    then show ?thesis by blast
  next
    case False
    with step.IH obtain es where
      e: "st_events (snd r) = st_events ?s2 @ es" and
      d: "st_db (snd r) = replay_store es (st_db ?s2)" and
      f: "bt = [] \<longrightarrow> fst r = [] \<and> list_all batch_empty es" by auto
    have "st_events (snd r) = st_events s @ (?es2 @ es) \<and>
        st_db (snd r) = replay_store (?es2 @ es) (st_db s) \<and>
        (bt = [] \<longrightarrow> fst r = [] \<and> list_all batch_empty (?es2 @ es))"
      using e d f s2 b2 by (simp add: replay_store_append replay_store_Cons)
    then show ?thesis by blast
  qed
qed

lemma walk_first_block:
  assumes "getblock cl bh = Inr b" and "walk cl cd h bh bt s = Some r"
  shows "\<exists>rest. st_events (snd r) = st_events s @ RpcGetBlock bh # block_events cl cd b @ rest"
proof -
  let ?s2 = "parse_block cl cd b (rpc_call (RpcGetBlock bh) s)"
  have s2: "st_events ?s2 = st_events s @ RpcGetBlock bh # block_events cl cd b"
    by (simp add: parse_block_effects)
  show ?thesis
  proof (cases "nextblockhash b")
    case None
    with assms have "r = (bt, ?s2)" by (simp add: walk_tip)
    with s2 show ?thesis by simp
  next
    case (Some nh)
    let ?bt3 = "if h mod 100 = 0 then [] else bt"
    let ?s3 = "if h mod 100 = 0 then st_write bt ?s2 else ?s2"
    from assms Some have "walk cl cd (h + 1) nh ?bt3 ?s3 = Some r"
      by (simp add: walk_next Let_def split: if_splits)
    from walk_effects [OF this] obtain es where "st_events (snd r) = st_events ?s3 @ es" by blast
    moreover have "\<exists>w. st_events ?s3 = st_events ?s2 @ w" by (simp add: sync_simps)
    ultimately show ?thesis using s2 by auto
  qed
qed

lemma fetch_new_blocks_effects:
  assumes "fetch_new_blocks cl cd s = Some s'"
  shows "\<exists>es. st_events s' = st_events s @ es \<and> st_db s' = replay_store es (st_db s) \<and>
           list_all batch_empty es"
proof (cases "getblockcount cl")
  case (Inl err)
  with assms have "st_events s' = st_events s @ [RpcGetBlockCount] \<and>
      st_db s' = replay_store [RpcGetBlockCount] (st_db s) \<and> list_all batch_empty [RpcGetBlockCount]"
    by (auto simp: fetch_new_blocks_def sync_simps replay_store_Cons)
  then show ?thesis by blast
next
  case (Inr best)
  let ?cur = "get_db_height cd (st_db s) + 1"
  let ?s1 = "rpc_call (RpcGetBlockHash ?cur) (rpc_call RpcGetBlockCount s)"
  show ?thesis
  proof (cases "getblockhash cl ?cur")
    case (Inl err)
    let ?es = "[RpcGetBlockCount, RpcGetBlockHash ?cur]"
    from assms Inr Inl have "s' = ?s1" by (simp add: fetch_new_blocks_def Let_def sync_simps)
    then have "st_events s' = st_events s @ ?es \<and> st_db s' = replay_store ?es (st_db s) \<and>
        list_all batch_empty ?es"
      by (simp add: sync_simps replay_store_Cons)
    then show ?thesis by blast
  next
    case (Inr bh)
    with assms \<open>getblockcount cl = Inr best\<close>
    have "map_option (\<lambda>(bt, s2). st_write bt s2) (walk cl cd ?cur bh [] ?s1) = Some s'"
      by (simp add: fetch_new_blocks_def Let_def sync_simps)
    then obtain bt s2 where
      w: "walk cl cd ?cur bh [] ?s1 = Some (bt, s2)" and s': "s' = st_write bt s2"
      by auto
    from walk_effects [OF w] obtain es where
      e: "st_events s2 = st_events ?s1 @ es" and d: "st_db s2 = replay_store es (st_db ?s1)"
      and f: "bt = [] \<and> list_all batch_empty es" by auto
    let ?all = "RpcGetBlockCount # RpcGetBlockHash ?cur # es @ [DbWrite []]"
    have "st_events s' = st_events s @ ?all \<and> st_db s' = replay_store ?all (st_db s) \<and>
        list_all batch_empty ?all"
      using e d f s' by (simp add: sync_simps replay_store_Cons replay_store_append)
    then show ?thesis by blast
  qed
qed

lemma parse_block_client_cong:
  assumes "getrawtransaction cl' = getrawtransaction cl"
  shows "parse_block cl' cd = parse_block cl cd"
proof -
  have "store_tx cl' cd = store_tx cl cd"
    using assms by (simp add: store_tx_def [abs_def])
  then show ?thesis by (simp add: parse_block_def [abs_def])
qed

lemma walk_Some_client_cong:
  assumes "walk cl cd h bh bt s = Some r"
    and "getblock cl' = getblock cl" and "getrawtransaction cl' = getrawtransaction cl"
  shows "walk cl' cd h bh bt s = Some r"
  using assms
proof (induction rule: walk_Some_induct)
  case (getblock_error cl cd h bh bt s e)
  then show ?case by (simp add: walk_getblock_Inl)
next
  case (tip cl cd h bh bt s b)
  from tip.prems(2) have "parse_block cl' cd = parse_block cl cd" by (rule parse_block_client_cong)
  with tip show ?case by (simp add: walk_tip)
next
  case (step cl cd h bh bt s b nh r)
  from step.prems(2) have "parse_block cl' cd = parse_block cl cd" by (rule parse_block_client_cong)
  with step show ?case by (simp add: walk_next Let_def split: if_splits)
qed

lemma walk_client_cong:
  assumes "getblock cl' = getblock cl" and "getrawtransaction cl' = getrawtransaction cl"
  shows "walk cl' cd h bh bt s = walk cl cd h bh bt s"
proof (cases "walk cl cd h bh bt s")
  case None
  show ?thesis
  proof (rule ccontr)
    assume "walk cl' cd h bh bt s \<noteq> walk cl cd h bh bt s"
    with None obtain r where "walk cl' cd h bh bt s = Some r" by auto
    from walk_Some_client_cong [OF this assms [symmetric]] None show False by simp
  qed
next
  case (Some r)
  from walk_Some_client_cong [OF Some assms] Some show ?thesis by simp
qed

lemma fetch_new_blocks_client_cong:
  assumes "getblockcount cl' = Inr n'" and "getblockcount cl = Inr n"
    and "getblockhash cl' = getblockhash cl" and "getblock cl' = getblock cl"
    and "getrawtransaction cl' = getrawtransaction cl"
  shows "fetch_new_blocks cl' cd s = fetch_new_blocks cl cd s"
  unfolding fetch_new_blocks_def Let_def
  by (subst walk_client_cong [OF assms(4,5)]) (simp add: assms(1,2,3))

text \<open>
  C19. The walk loop returns exactly when the successor links from its start hash end:
  following \<open>nextblockhash\<close> reaches a block without successor, or a hash the node
  cannot serve, within finitely many steps.
\<close>

theorem walk_returns_iff:
  "(\<exists>r. walk cl cd h bh [] s = Some r) \<longleftrightarrow> (\<exists>n bs. chain_blocks cl n bh = Some bs)"
proof
  assume "\<exists>r. walk cl cd h bh [] s = Some r"
  then show "\<exists>n bs. chain_blocks cl n bh = Some bs"
    using walk_Some_chain_blocks by blast
next
  assume "\<exists>n bs. chain_blocks cl n bh = Some bs"
  then show "\<exists>r. walk cl cd h bh [] s = Some r"
    using walk_chain_blocks by blast
qed

text \<open>
  C20. Termination of a whole run: whenever the successor links from the start hash
  \<open>watermark + 1\<close> end, \<open>fetch_new_blocks\<close> returns (on the early-return paths it
  returns anyway).
\<close>

theorem fetch_new_blocks_returns:
  assumes "\<forall>bh. getblockhash cl (get_db_height cd (st_db s) + 1) = Inr bh \<longrightarrow>
             (\<exists>n bs. chain_blocks cl n bh = Some bs)"
  shows "\<exists>s'. fetch_new_blocks cl cd s = Some s'"
proof (cases "getblockcount cl")
  case Inl
  then show ?thesis by (simp add: fetch_new_blocks_def)
next
  case Inr
  let ?cur = "get_db_height cd (st_db s) + 1"
  show ?thesis
  proof (cases "getblockhash cl ?cur")
    case Inl
    with Inr show ?thesis by (simp add: fetch_new_blocks_def Let_def sync_simps)
  next
    case (Inr bh)
    with assms obtain n bs where "chain_blocks cl n bh = Some bs" by blast
    then obtain s2 where
      "walk cl cd ?cur bh [] (rpc_call (RpcGetBlockHash ?cur) (rpc_call RpcGetBlockCount s)) =
         Some ([], s2)"
      using walk_chain_blocks by blast
    with Inr \<open>getblockcount cl = Inr _\<close> show ?thesis
      by (simp add: fetch_new_blocks_def Let_def sync_simps)
  qed
qed

text \<open>
  C22. The write batch is never populated: over a whole run the recorded effects are
  appended in order, the store the run leaves is exactly the one its recorded puts and
  writes produce, and every \<open>db.write(batch)\<close> commits the empty batch. All of a
  run's store changes are therefore the immediate \<open>db.put\<close>s of \<open>parse_block\<close>,
  not atomic batch commits.
\<close>

theorem fetch_new_blocks_batch_never_filled:
  assumes "fetch_new_blocks cl cd s = Some s'"
  shows "\<exists>es. st_events s' = st_events s @ es \<and> st_db s' = replay_store es (st_db s) \<and>
           (\<forall>b. DbWrite b \<in> set es \<longrightarrow> b = [])"
proof -
  from fetch_new_blocks_effects [OF assms] obtain es where
    "st_events s' = st_events s @ es" "st_db s' = replay_store es (st_db s)"
    "list_all batch_empty es" by blast
  moreover from \<open>list_all batch_empty es\<close> have "\<forall>b. DbWrite b \<in> set es \<longrightarrow> b = []"
    by (auto simp: list_all_iff)
  ultimately show ?thesis by blast
qed

text \<open>
  C17. Refinement of a run against the reference traversal, for any node: when the
  block count and the hash at \<open>watermark + 1\<close> are served and the successor links
  from it visit the blocks \<open>bs\<close>, the run returns and leaves the store that writing
  the entries of \<open>bs\<close> (each block, then its fetched transactions) in order gives.
\<close>

theorem fetch_new_blocks_stores_chain:
  assumes "getblockcount cl = Inr best"
    and "getblockhash cl (get_db_height cd (st_db s) + 1) = Inr bh"
    and "chain_blocks cl n bh = Some bs"
  shows "\<exists>s'. fetch_new_blocks cl cd s = Some s' \<and>
           st_db s' = db_write (concat (map (block_entries cl cd) bs)) (st_db s)"
proof -
  let ?cur = "get_db_height cd (st_db s) + 1"
  let ?s1 = "rpc_call (RpcGetBlockHash ?cur) (rpc_call RpcGetBlockCount s)"
  from walk_chain_blocks [OF assms(3)] obtain s2 where
    w: "walk cl cd ?cur bh [] ?s1 = Some ([], s2)" and
    d: "st_db s2 = db_write (concat (map (block_entries cl cd) bs)) (st_db ?s1)" by blast
  from assms(1,2) w have "fetch_new_blocks cl cd s = Some (st_write [] s2)"
    by (simp add: fetch_new_blocks_def Let_def sync_simps)
  with d show ?thesis by (simp add: sync_simps)
qed

text \<open>
  C31. Error path: when \<open>getblockcount\<close> fails the run returns at once, having made
  that one call and touched nothing: no scan, no fetch, no write.
\<close>

theorem fetch_new_blocks_blockcount_error:
  assumes "getblockcount cl = Inl err"
  shows "fetch_new_blocks cl cd s = Some (s\<lparr>st_events := st_events s @ [RpcGetBlockCount]\<rparr>)"
  using assms by (simp add: fetch_new_blocks_def rpc_call_def)

text \<open>
  C32. Error path: when the node has no hash at \<open>watermark + 1\<close> (nothing new to
  sync, or the call fails) the run returns after the two calls, without writing the
  batch and without changing the store.
\<close>

theorem fetch_new_blocks_blockhash_error:
  assumes "getblockcount cl = Inr best"
    and "getblockhash cl (get_db_height cd (st_db s) + 1) = Inl err"
  shows "fetch_new_blocks cl cd s =
           Some (s\<lparr>st_events := st_events s @
                   [RpcGetBlockCount, RpcGetBlockHash (get_db_height cd (st_db s) + 1)]\<rparr>)"
  using assms by (simp add: fetch_new_blocks_def rpc_call_def)

text \<open>
  C21. Non-termination on a cyclic successor chain: nothing in the loop checks that
  the chain advances, so if the node serves a block at the start hash whose
  \<open>nextblockhash\<close> is that same hash, \<open>fetch_new_blocks\<close> never returns.
\<close>

theorem fetch_new_blocks_diverges_on_cycle:
  assumes "getblockcount cl = Inr best"
    and "getblockhash cl (get_db_height cd (st_db s) + 1) = Inr bh"
    and "getblock cl bh = Inr b" and "nextblockhash b = Some bh"
  shows "fetch_new_blocks cl cd s = None"
  using assms walk_self_loop_None [OF assms(3,4)]
  by (simp add: fetch_new_blocks_def Let_def sync_simps)

text \<open>
  C33. The tip height is never used (line 13): \<open>getblockcount\<close> only decides whether the
  run starts at all. Whatever height the node reports, the run is the same: it does
  not stop at the reported tip, and a node that reports a lower tip than it serves is
  walked to the end of its successor links.
\<close>

theorem fetch_new_blocks_ignores_tip:
  "fetch_new_blocks (cl\<lparr>getblockcount := Inr n\<rparr>) cd s = fetch_new_blocks (cl\<lparr>getblockcount := Inr n'\<rparr>) cd s"
  by (rule fetch_new_blocks_client_cong) simp_all

end
