(* ===== verification/Chain.thy ===== *)
theory Chain
  imports Walker
begin

text \<open>
  Runs of \<open>fetch_new_blocks\<close> against a node that serves one canonical chain
  (\<open>chain_client bs txs\<close> with \<open>canonical_chain bs\<close>, theory \<open>Rpc\<close>): the
  environment the spec's testable properties (section 8) are stated in. A store that
  has synchronised the first \<open>k\<close> blocks cleanly is \<open>synced_db\<close>: the entries of
  those blocks, each block followed by its fetched transactions, written in order.
  The lemmas compute what the node answers along the chain, the watermark such a
  store yields (\<open>k - 1\<close>, given a codec that decodes blocks and rejects
  transactions), and the run from it: it stores the remaining blocks and makes
  exactly one \<open>getblock\<close> per remaining block and one \<open>getrawtransaction\<close> per
  transaction id, in chain order (\<open>fetch_new_blocks_canonical\<close>).
\<close>

definition synced_db :: "'d client \<Rightarrow> ('v, 'd) codec \<Rightarrow> full_block list \<Rightarrow> nat \<Rightarrow> 'v db" where
  "synced_db cl cd bs k = db_write (concat (map (block_entries cl cd) (take k bs))) []"

definition sync_rpcs :: "full_block list \<Rightarrow> 'v event list" where
  "sync_rpcs bs = concat (map (\<lambda>b. RpcGetBlock (hash b) # map RpcGetRawTransaction (tx b)) bs)"

subsection \<open>The node's answers along a canonical chain\<close>

lemma canonical_getblock:
  "canonical_chain bs \<Longrightarrow> i < length bs \<Longrightarrow>
     getblock (chain_client bs txs) (hash (bs ! i)) = Inr (bs ! i)"
  by (simp add: chain_client_def canonical_chain_def find_block_nth)

lemma canonical_nth:
  "canonical_chain bs \<Longrightarrow> i < length bs \<Longrightarrow>
     height (bs ! i) = int i \<and>
     nextblockhash (bs ! i) = (if Suc i < length bs then Some (hash (bs ! Suc i)) else None)"
  using linked_from_nth [of 0 bs i] by (simp add: canonical_chain_def)

lemma canonical_getblockhash:
  "getblockhash (chain_client bs txs) (int i) =
     (if i < length bs then Inr (hash (bs ! i)) else Inl NotFoundError)"
  by (simp add: chain_client_def)

lemma chain_blocks_canonical:
  assumes "canonical_chain bs" and "i < length bs"
  shows "chain_blocks (chain_client bs txs) (length bs - i) (hash (bs ! i)) = Some (drop i bs) \<and>
         chain_rpcs (chain_client bs txs) (length bs - i) (hash (bs ! i)) = sync_rpcs (drop i bs)"
proof -
  have "m = length bs - i \<Longrightarrow> i < length bs \<Longrightarrow>
      chain_blocks (chain_client bs txs) m (hash (bs ! i)) = Some (drop i bs) \<and>
      chain_rpcs (chain_client bs txs) m (hash (bs ! i)) = sync_rpcs (drop i bs)" for m
  proof (induction m arbitrary: i)
    case 0
    then show ?case by simp
  next
    case (Suc m)
    note gb = canonical_getblock [OF assms(1) Suc.prems(2), of txs]
    note nx = canonical_nth [OF assms(1) Suc.prems(2)]
    have dr: "drop i bs = bs ! i # drop (Suc i) bs"
      using Suc.prems(2) by (rule Cons_nth_drop_Suc [symmetric])
    show ?case
    proof (cases "Suc i < length bs")
      case True
      with Suc.prems have "m = length bs - Suc i" by simp
      from Suc.IH [OF this True] gb nx True dr show ?thesis
        by (simp add: sync_rpcs_def)
    next
      case False
      with Suc.prems(2) have "drop (Suc i) bs = []" by simp
      with gb nx False dr show ?thesis by (simp add: sync_rpcs_def)
    qed
  qed
  with assms show ?thesis by blast
qed

subsection \<open>The entries of a chain prefix\<close>

lemma set_tx_entries_iff:
  "(k, v) \<in> set (tx_entries cl cd t) \<longleftrightarrow>
     (\<exists>d. getrawtransaction cl t True = Inr d \<and> k = tx_key t \<and> v = serialize_tx cd (assemble_tx t d))"
  by (cases "getrawtransaction cl t True") (auto simp: tx_entries_def)

lemma set_block_entries:
  "(k, v) \<in> set (block_entries cl cd b) \<longleftrightarrow>
     (k = format_hashes (hash b) \<and> v = serialize_block cd b) \<or>
     (\<exists>t \<in> set (tx b). \<exists>d. getrawtransaction cl t True = Inr d \<and>
        k = tx_key t \<and> v = serialize_tx cd (assemble_tx t d))"
proof -
  have "(k, v) \<in> set (block_entries cl cd b) \<longleftrightarrow>
      (k, v) = (format_hashes (hash b), serialize_block cd b) \<or>
      (\<exists>t \<in> set (tx b). (k, v) \<in> set (tx_entries cl cd t))"
    by (simp add: block_entries_def)
  then show ?thesis by (simp add: set_tx_entries_iff)
qed

lemma chain_entries_functional:
  assumes "distinct (map hash bs)"
    and "(k, v) \<in> set (concat (map (block_entries cl cd) bs))"
    and "(k, v') \<in> set (concat (map (block_entries cl cd) bs))"
  shows "v' = v"
proof -
  from assms(2) obtain b where b: "b \<in> set bs" "(k, v) \<in> set (block_entries cl cd b)" by auto
  from assms(3) obtain b' where b': "b' \<in> set bs" "(k, v') \<in> set (block_entries cl cd b')" by auto
  from assms(1) have inj: "inj_on hash (set bs)" by (simp add: distinct_map)
  from b(2) b'(2) show ?thesis
    unfolding set_block_entries
    using inj_onD [OF inj _ b(1) b'(1)] by (auto simp: format_hashes_inj tx_key_inj)
qed

lemma synced_db_wf: "db_wf (synced_db cl cd bs k)"
  unfolding synced_db_def by (rule db_write_wf) (simp add: db_wf_def)

lemma chain_write_entry:
  assumes "distinct (map hash bs)" and "e \<in> set (concat (map (block_entries cl cd) bs))"
  shows "e \<in> set (db_write (concat (map (block_entries cl cd) bs)) [])"
proof -
  obtain key v where ekv: "e = (key, v)" by fastforce
  from assms(2) have e: "(key, v) \<in> set (concat (map (block_entries cl cd) bs))" by (simp add: ekv)
  have "(key, v) \<in> set (db_write (concat (map (block_entries cl cd) bs)) [])"
  proof (rule db_write_mem)
    show "db_wf []" by (simp add: db_wf_def)
    show "\<forall>v'. (key, v') \<in> set (concat (map (block_entries cl cd) bs)) \<longrightarrow> v' = v"
      using chain_entries_functional [OF assms(1) e] by blast
  qed (rule e)
  then show ?thesis by (simp add: ekv)
qed

lemma chain_write_set:
  assumes "distinct (map hash bs)" and "set B \<subseteq> set (concat (map (block_entries cl cd) bs))"
  shows "set (db_write B []) = set B"
proof
  show "set (db_write B []) \<subseteq> set B" using set_db_write [of B "[]"] by simp
  show "set B \<subseteq> set (db_write B [])"
  proof
    fix e assume e: "e \<in> set B"
    obtain k v where kv: "e = (k, v)" by fastforce
    have "(k, v) \<in> set (db_write B [])"
    proof (rule db_write_mem)
      show "db_wf []" by (simp add: db_wf_def)
      show "(k, v) \<in> set B" using e kv by simp
      show "\<forall>v'. (k, v') \<in> set B \<longrightarrow> v' = v"
      proof (intro allI impI)
        fix v' assume "(k, v') \<in> set B"
        with assms(2) e kv have "(k, v) \<in> set (concat (map (block_entries cl cd) bs))"
          "(k, v') \<in> set (concat (map (block_entries cl cd) bs))" by auto
        then show "v' = v" by (rule chain_entries_functional [OF assms(1)])
      qed
    qed
    with kv show "e \<in> set (db_write B [])" by simp
  qed
qed

lemma synced_db_entry:
  assumes "canonical_chain bs"
    and "e \<in> set (concat (map (block_entries cl cd) (take k bs)))"
  shows "e \<in> set (synced_db cl cd bs k)"
proof -
  from assms(1) have "distinct (take k (map hash bs))"
    by (simp add: canonical_chain_def distinct_take)
  then have "distinct (map hash (take k bs))" by (simp add: take_map)
  from chain_write_entry [OF this assms(2)] show ?thesis by (simp add: synced_db_def)
qed

lemma synced_db_block:
  assumes "canonical_chain bs" and "i < k" and "k \<le> length bs"
  shows "(format_hashes (hash (bs ! i)), serialize_block cd (bs ! i)) \<in> set (synced_db cl cd bs k)"
proof (rule synced_db_entry [OF assms(1)])
  from assms have "bs ! i \<in> set (take k bs)" by (auto simp: in_set_conv_nth)
  then show "(format_hashes (hash (bs ! i)), serialize_block cd (bs ! i)) \<in>
      set (concat (map (block_entries cl cd) (take k bs)))"
    by (force simp: block_entries_def)
qed

lemma map_of_entries_no_tx:
  assumes "\<forall>b \<in> set bs. t \<notin> set (tx b)"
  shows "map_of (rev (concat (map (block_entries cl cd) bs))) (tx_key t) = None"
proof -
  have "tx_key t \<notin> fst ` set (concat (map (block_entries cl cd) bs))"
  proof
    assume "tx_key t \<in> fst ` set (concat (map (block_entries cl cd) bs))"
    then obtain b v where b: "b \<in> set bs" and e: "(tx_key t, v) \<in> set (block_entries cl cd b)"
      by force
    from e have "t \<in> set (tx b)"
      unfolding set_block_entries by (auto simp: tx_key_inj)
    with assms b show False by blast
  qed
  then show ?thesis by (simp add: map_of_eq_None_iff)
qed

lemma set_take_nth: "b \<in> set (take n bs) \<Longrightarrow> \<exists>j < n. j < length bs \<and> b = bs ! j"
  by (auto simp: in_set_conv_nth)

lemma set_drop_nth: "b \<in> set (drop n bs) \<Longrightarrow> \<exists>j \<ge> n. j < length bs \<and> b = bs ! j"
proof -
  assume "b \<in> set (drop n bs)"
  then obtain i where "i < length (drop n bs)" and "drop n bs ! i = b"
    by (auto simp: in_set_conv_nth)
  then show ?thesis by (intro exI [of _ "n + i"]) auto
qed

lemma rpc_in_sync_rpcs:
  "RpcGetRawTransaction t \<in> set (sync_rpcs bs) \<Longrightarrow> \<exists>b \<in> set bs. t \<in> set (tx b)"
  by (auto simp: sync_rpcs_def)

lemma prefix_store_decoded:
  assumes "codec_ok cd" and "set d \<subseteq> set (concat (map (block_entries cl cd) (take m bs)))"
    and "b \<in> set (decoded_blocks cd d)"
  shows "b \<in> set (take m bs)"
proof -
  from assms(3) obtain key v where kv: "(key, v) \<in> set d"
    and dec: "deserialize_block cd v = Inr b"
    by (auto simp: set_decoded_blocks)
  from kv assms(2) have "(key, v) \<in> set (concat (map (block_entries cl cd) (take m bs)))" by blast
  then obtain b' where b': "b' \<in> set (take m bs)" "(key, v) \<in> set (block_entries cl cd b')"
    by auto
  from b'(2) consider (blk) "v = serialize_block cd b'"
    | (trans) t d where "v = serialize_tx cd (assemble_tx t d)"
    unfolding set_block_entries by blast
  then show ?thesis
  proof cases
    case blk
    with dec assms(1) b'(1) show ?thesis by (simp add: codec_ok_def)
  next
    case trans
    from assms(1) have "isl (deserialize_block cd (serialize_tx cd (assemble_tx t d)))"
      by (simp add: codec_ok_def)
    with dec trans show ?thesis by simp
  qed
qed

text \<open>
  The watermark of any store holding only entries of the first \<open>m\<close> blocks, among
  them the record of block \<open>m - 1\<close>, is \<open>m - 1\<close>.
\<close>

lemma get_db_height_prefix_store:
  assumes "canonical_chain bs" and "codec_ok cd" and "m \<le> length bs"
    and "set d \<subseteq> set (concat (map (block_entries cl cd) (take m bs)))"
    and "0 < m \<Longrightarrow> (format_hashes (hash (bs ! (m - 1))), serialize_block cd (bs ! (m - 1))) \<in> set d"
  shows "get_db_height cd d = int m - 1"
proof (rule get_db_height_eqI)
  fix b assume "b \<in> set (decoded_blocks cd d)"
  from prefix_store_decoded [OF assms(2,4) this] obtain i where
    i: "i < m" "i < length bs" and bi: "b = bs ! i"
    by (auto simp: in_set_conv_nth)
  with canonical_nth [OF assms(1) i(2)] show "height b \<le> int m - 1" by simp
next
  show "int m - 1 \<in> insert (-1) (height ` set (decoded_blocks cd d))"
  proof (cases m)
    case (Suc j)
    with assms(3) have j: "j < length bs" by simp
    from assms(5) Suc have "(format_hashes (hash (bs ! j)), serialize_block cd (bs ! j)) \<in> set d" by simp
    with assms(2) have "bs ! j \<in> set (decoded_blocks cd d)"
      by (force simp: set_decoded_blocks codec_ok_def)
    with canonical_nth [OF assms(1) j] Suc show ?thesis by force
  qed simp
qed simp

text \<open>Entries of a canonical chain have one value per key, so writing them keeps each.\<close>

lemma chain_prefix_write_mem:
  assumes "canonical_chain bs" and "db_wf d"
    and "set d \<union> set E \<subseteq> set (concat (map (block_entries cl cd) bs))"
    and "e \<in> set d \<union> set E"
  shows "e \<in> set (db_write E d)"
proof -
  obtain k v where e: "e = (k, v)" by fastforce
  from assms(1) have dist: "distinct (map hash bs)" by (simp add: canonical_chain_def)
  from assms(3,4) have ev: "(k, v) \<in> set (concat (map (block_entries cl cd) bs))" by (auto simp: e)
  have "\<forall>v'. (k, v') \<in> set d \<union> set E \<longrightarrow> v' = v"
  proof (intro allI impI)
    fix v' assume "(k, v') \<in> set d \<union> set E"
    with assms(3) have "(k, v') \<in> set (concat (map (block_entries cl cd) bs))" by blast
    with dist ev show "v' = v" by (rule chain_entries_functional)
  qed
  with assms(2,4) show ?thesis unfolding e by (intro db_write_mem_functional) simp_all
qed

lemma entries_take_subset:
  "set (concat (map (block_entries cl cd) (take m bs))) \<subseteq> set (concat (map (block_entries cl cd) bs))"
  by (auto dest: in_set_takeD)

lemma get_db_height_prefix_entries:
  assumes "canonical_chain bs" and "codec_ok cd" and "m \<le> length bs"
    and "set E \<subseteq> set (concat (map (block_entries cl cd) (take m bs)))"
    and "0 < m \<Longrightarrow> (format_hashes (hash (bs ! (m - 1))), serialize_block cd (bs ! (m - 1))) \<in> set E"
  shows "get_db_height cd (db_write E []) = int m - 1"
proof (rule get_db_height_prefix_store [OF assms(1-3)])
  show "set (db_write E []) \<subseteq> set (concat (map (block_entries cl cd) (take m bs)))"
    using set_db_write [of E "[]"] assms(4) by auto
  assume "0 < m"
  with assms(5) have e: "(format_hashes (hash (bs ! (m - 1))), serialize_block cd (bs ! (m - 1))) \<in> set [] \<union> set E"
    by simp
  have "set [] \<union> set E \<subseteq> set (concat (map (block_entries cl cd) bs))"
    using assms(4) entries_take_subset [of cl cd m bs] by simp
  with assms(1) show "(format_hashes (hash (bs ! (m - 1))), serialize_block cd (bs ! (m - 1))) \<in> set (db_write E [])"
    using e by (intro chain_prefix_write_mem) (simp_all add: db_wf_def)
qed

lemma get_db_height_synced:
  assumes "canonical_chain bs" and "codec_ok cd" and "k \<le> length bs"
  shows "get_db_height cd (synced_db cl cd bs k) = int k - 1"
  unfolding synced_db_def
proof (rule get_db_height_prefix_entries [OF assms])
  show "set (concat (map (block_entries cl cd) (take k bs))) \<subseteq>
      set (concat (map (block_entries cl cd) (take k bs)))" by (rule order.refl)
  assume "0 < k"
  with assms(3) have l: "k - 1 < length (take k bs)" by simp
  from \<open>0 < k\<close> have "take k bs ! (k - 1) = bs ! (k - 1)" by simp
  with nth_mem [OF l] have "bs ! (k - 1) \<in> set (take k bs)" by simp
  then show "(format_hashes (hash (bs ! (k - 1))), serialize_block cd (bs ! (k - 1))) \<in>
      set (concat (map (block_entries cl cd) (take k bs)))"
    by (force simp: block_entries_def)
qed

lemma synced_db_all:
  "db_write (concat (map (block_entries cl cd) (drop k bs))) (synced_db cl cd bs k) =
     synced_db cl cd bs (length bs)"
proof -
  have "concat (map (block_entries cl cd) bs) =
      concat (map (block_entries cl cd) (take k bs)) @ concat (map (block_entries cl cd) (drop k bs))"
    by (metis append_take_drop_id concat_append map_append)
  then show ?thesis by (simp add: synced_db_def db_write_append)
qed

lemma fetch_new_blocks_from_watermark:
  assumes "canonical_chain bs" and "k \<le> length bs"
    and "get_db_height cd (st_db s) = int k - 1"
  shows "\<exists>s'. fetch_new_blocks (chain_client bs txs) cd s = Some s' \<and>
           st_db s' = db_write (concat (map (block_entries (chain_client bs txs) cd) (drop k bs))) (st_db s) \<and>
           rpc_calls (st_events s') = rpc_calls (st_events s) @
             RpcGetBlockCount # RpcGetBlockHash (int k) # sync_rpcs (drop k bs) \<and>
           (k < length bs \<longrightarrow> (\<exists>rest. st_events s' = st_events s @
              [RpcGetBlockCount, RpcGetBlockHash (int k), RpcGetBlock (hash (bs ! k))] @
              block_events (chain_client bs txs) cd (bs ! k) @ rest))"
proof -
  let ?cl = "chain_client bs txs"
  have gc: "getblockcount ?cl = Inr (int (length bs) - 1)" by (simp add: chain_client_def)
  show ?thesis
  proof (cases "k < length bs")
    case False
    with assms(2) have k: "k = length bs" by simp
    have "fetch_new_blocks ?cl cd s =
        Some (rpc_call (RpcGetBlockHash (int k)) (rpc_call RpcGetBlockCount s))"
      using assms(3) gc k by (simp add: fetch_new_blocks_def Let_def sync_simps canonical_getblockhash)
    with k show ?thesis by (simp add: sync_simps sync_rpcs_def)
  next
    case True
    let ?s1 = "rpc_call (RpcGetBlockHash (int k)) (rpc_call RpcGetBlockCount s)"
    from chain_blocks_canonical [OF assms(1) True, of txs] have
      cb: "chain_blocks ?cl (length bs - k) (hash (bs ! k)) = Some (drop k bs)" and
      cr: "chain_rpcs ?cl (length bs - k) (hash (bs ! k)) = sync_rpcs (drop k bs)" by blast+
    from walk_chain_blocks [OF cb, of cd "int k" ?s1] obtain s2 where
      w: "walk ?cl cd (int k) (hash (bs ! k)) [] ?s1 = Some ([], s2)" and
      d: "st_db s2 = db_write (concat (map (block_entries ?cl cd) (drop k bs))) (st_db ?s1)" and
      r: "rpc_calls (st_events s2) =
            rpc_calls (st_events ?s1) @ chain_rpcs ?cl (length bs - k) (hash (bs ! k))"
      by blast
    have f: "fetch_new_blocks ?cl cd s = Some (st_write [] s2)"
      using assms(3) gc True w by (simp add: fetch_new_blocks_def Let_def sync_simps canonical_getblockhash)
    from walk_first_block [OF canonical_getblock [OF assms(1) True] w] obtain rest where
      "st_events s2 = st_events ?s1 @ RpcGetBlock (hash (bs ! k)) # block_events ?cl cd (bs ! k) @ rest"
      by auto
    then have "st_events (st_write [] s2) = st_events s @
        [RpcGetBlockCount, RpcGetBlockHash (int k), RpcGetBlock (hash (bs ! k))] @
        block_events ?cl cd (bs ! k) @ rest @ [DbWrite []]"
      by (simp add: sync_simps)
    with f d r cr show ?thesis by (auto simp: sync_simps)
  qed
qed

text \<open>
  A crash right after the block record of block \<open>k\<close>: the store is the synced prefix
  plus that one record. Its watermark is \<open>k\<close>, and a transaction carried only by block
  \<open>k\<close> is neither in it nor fetched by any later run.
\<close>

lemma synced_tx_stored:
  assumes "canonical_chain bs" and "k < length bs" and "t \<in> set (tx (bs ! k))" and "txs t = Inr d"
  shows "map_of (synced_db (chain_client bs txs) cd bs (length bs)) (tx_key t) =
           Some (serialize_tx cd (assemble_tx t d))"
proof -
  let ?cl = "chain_client bs txs"
  have "(tx_key t, serialize_tx cd (assemble_tx t d)) \<in> set (block_entries ?cl cd (bs ! k))"
    using assms(3,4) by (force simp: set_block_entries chain_client_def)
  moreover have "bs ! k \<in> set (take (length bs) bs)" using assms(2) by simp
  ultimately have "(tx_key t, serialize_tx cd (assemble_tx t d)) \<in>
      set (concat (map (block_entries ?cl cd) (take (length bs) bs)))" by force
  then have "(tx_key t, serialize_tx cd (assemble_tx t d)) \<in> set (synced_db ?cl cd bs (length bs))"
    by (rule synced_db_entry [OF assms(1)])
  then show ?thesis
    by (rule map_of_is_SomeI [OF db_wf_distinct [OF synced_db_wf]])
qed

lemma crashed_store_watermark:
  assumes "canonical_chain bs" and "codec_ok cd" and "k < length bs"
  shows "get_db_height cd (db_put (format_hashes (hash (bs ! k))) (serialize_block cd (bs ! k))
           (synced_db cl cd bs k)) = int k"
proof -
  let ?E = "concat (map (block_entries cl cd) (take k bs))"
  let ?e = "(format_hashes (hash (bs ! k)), serialize_block cd (bs ! k))"
  have eq: "db_put (fst ?e) (snd ?e) (synced_db cl cd bs k) = db_write (?E @ [?e]) []"
    by (simp add: synced_db_def db_write_append db_write_Cons)
  have take_Suc: "take (Suc k) bs = take k bs @ [bs ! k]"
    using assms(3) by (rule take_Suc_conv_app_nth)
  have "get_db_height cd (db_write (?E @ [?e]) []) = int (Suc k) - 1"
  proof (rule get_db_height_prefix_entries [OF assms(1,2)])
    show "Suc k \<le> length bs" using assms(3) by simp
    show "set (?E @ [?e]) \<subseteq> set (concat (map (block_entries cl cd) (take (Suc k) bs)))"
      by (auto simp: take_Suc block_entries_def)
    show "(format_hashes (hash (bs ! (Suc k - 1))), serialize_block cd (bs ! (Suc k - 1))) \<in>
        set (?E @ [?e])" by simp
  qed
  with eq show ?thesis by simp
qed

lemma only_block_tx_absent:
  assumes "\<forall>j < length bs. j \<noteq> k \<longrightarrow> t \<notin> set (tx (bs ! j))"
  shows "map_of (rev (concat (map (block_entries cl cd) (take k bs)))) (tx_key t) = None"
    and "map_of (rev (concat (map (block_entries cl cd) (drop (Suc k) bs)))) (tx_key t) = None"
proof -
  show "map_of (rev (concat (map (block_entries cl cd) (take k bs)))) (tx_key t) = None"
    using assms by (intro map_of_entries_no_tx) (fastforce dest: set_take_nth)
  show "map_of (rev (concat (map (block_entries cl cd) (drop (Suc k) bs)))) (tx_key t) = None"
    using assms by (intro map_of_entries_no_tx) (fastforce dest: set_drop_nth)
qed

lemma restart_after_crash_misses_tx:
  assumes canon: "canonical_chain bs" and ok: "codec_ok cd" and k: "k < length bs"
    and only: "\<forall>j < length bs. j \<noteq> k \<longrightarrow> t \<notin> set (tx (bs ! j))"
  shows "\<exists>s''. fetch_new_blocks (chain_client bs txs) cd
             \<lparr>st_db = db_put (format_hashes (hash (bs ! k))) (serialize_block cd (bs ! k))
                (synced_db (chain_client bs txs) cd bs k), st_events = []\<rparr> = Some s'' \<and>
           map_of (st_db s'') (tx_key t) = None \<and> RpcGetRawTransaction t \<notin> set (st_events s'')"
proof -
  let ?cl = "chain_client bs txs"
  let ?crashed = "db_put (format_hashes (hash (bs ! k))) (serialize_block cd (bs ! k)) (synced_db ?cl cd bs k)"
  let ?s0 = "\<lparr>st_db = ?crashed, st_events = []\<rparr> :: 'a sync_state"
  have wf: "db_wf ?crashed" by (rule db_put_wf [OF synced_db_wf])
  have "map_of (synced_db ?cl cd bs k) (tx_key t) = None"
    using only_block_tx_absent(1) [OF only, of ?cl cd] by (simp add: synced_db_def map_of_db_write db_wf_def)
  then have none: "map_of ?crashed (tx_key t) = None"
    by (simp add: map_of_db_put [OF synced_db_wf])
  have "get_db_height cd (st_db ?s0) = int (Suc k) - 1"
    using crashed_store_watermark [OF canon ok k] by simp
  from fetch_new_blocks_from_watermark [OF canon _ this, of txs] k obtain s'' where
    f: "fetch_new_blocks ?cl cd ?s0 = Some s''" and
    d: "st_db s'' = db_write (concat (map (block_entries ?cl cd) (drop (Suc k) bs))) ?crashed" and
    r: "rpc_calls (st_events s'') = RpcGetBlockCount # RpcGetBlockHash (int (Suc k)) #
           sync_rpcs (drop (Suc k) bs)"
    by auto
  have lost: "map_of (st_db s'') (tx_key t) = None"
    using d wf none only_block_tx_absent(2) [OF only, of ?cl cd] by (simp add: map_of_db_write map_add_def)
  have never: "RpcGetRawTransaction t \<notin> set (st_events s'')"
  proof
    assume "RpcGetRawTransaction t \<in> set (st_events s'')"
    then have "RpcGetRawTransaction t \<in> set (rpc_calls (st_events s''))"
      by (simp add: rpc_calls_def)
    with r obtain b where "b \<in> set (drop (Suc k) bs)" and "t \<in> set (tx b)"
      by (auto dest: rpc_in_sync_rpcs)
    with only show False by (fastforce dest: set_drop_nth)
  qed
  from f lost never show ?thesis by blast
qed

lemma fetch_new_blocks_canonical:
  assumes "canonical_chain bs" and "codec_ok cd" and "k \<le> length bs"
    and "st_db s = synced_db (chain_client bs txs) cd bs k"
  shows "\<exists>s'. fetch_new_blocks (chain_client bs txs) cd s = Some s' \<and>
           st_db s' = synced_db (chain_client bs txs) cd bs (length bs) \<and>
           rpc_calls (st_events s') = rpc_calls (st_events s) @
             RpcGetBlockCount # RpcGetBlockHash (int k) # sync_rpcs (drop k bs)"
proof -
  have "get_db_height cd (st_db s) = int k - 1"
    using get_db_height_synced [OF assms(1-3)] assms(4) by simp
  from fetch_new_blocks_from_watermark [OF assms(1,3) this, of txs] assms(4) show ?thesis
    by (auto simp: synced_db_all)
qed

lemma canonical_hash_drop:
  assumes "canonical_chain bs" "j < m" "b \<in> set (drop m bs)"
  shows "hash b \<noteq> hash (bs ! j)"
proof
  assume eq: "hash b = hash (bs ! j)"
  from set_drop_nth [OF assms(3)] obtain i where i: "m \<le> i" "i < length bs" "b = bs ! i" by blast
  with assms(2) have j: "j < length bs" "i \<noteq> j" by simp_all
  from assms(1) have "distinct (map hash bs)" by (simp add: canonical_chain_def)
  then have "hash (bs ! i) \<noteq> hash (bs ! j)" using i j by (auto simp: distinct_conv_nth)
  with i eq show False by simp
qed


lemma sync_rpcs_drop_notin:
  assumes "canonical_chain bs" and "j < m"
  shows "RpcGetBlock (hash (bs ! j)) \<notin> set (sync_rpcs (drop m bs))"
proof
  assume "RpcGetBlock (hash (bs ! j)) \<in> set (sync_rpcs (drop m bs))"
  then obtain b where "b \<in> set (drop m bs)" "hash b = hash (bs ! j)"
    by (auto simp: sync_rpcs_def)
  with canonical_hash_drop [OF assms] show False by blast
qed

lemma entries_drop_block_key:
  assumes "canonical_chain bs" and "j < m"
  shows "map_of (rev (concat (map (block_entries cl cd) (drop m bs)))) (format_hashes (hash (bs ! j))) = None"
proof (rule ccontr)
  assume "map_of (rev (concat (map (block_entries cl cd) (drop m bs))))
      (format_hashes (hash (bs ! j))) \<noteq> None"
  then obtain b v where "b \<in> set (drop m bs)"
    "(format_hashes (hash (bs ! j)), v) \<in> set (block_entries cl cd b)"
    by (auto simp: map_of_eq_None_iff)
  then have "b \<in> set (drop m bs)" "hash b = hash (bs ! j)"
    by (auto simp: set_block_entries format_hashes_inj)
  with canonical_hash_drop [OF assms] show False by blast
qed

text \<open>
  C1. Completeness without gaps (spec section 8, "No gaps"): from a store that has
  cleanly synchronised the first \<open>k\<close> blocks of a canonical chain, a run returns
  and leaves the store holding every block's entries and its fetched transactions; its
  watermark is the tip height, and every height from \<open>0\<close> to the tip has its block
  record in the store.
\<close>

theorem sync_completes_without_gaps:
  assumes "canonical_chain bs" and "codec_ok cd" and "k \<le> length bs"
    and "st_db s = synced_db (chain_client bs txs) cd bs k"
  shows "\<exists>s'. fetch_new_blocks (chain_client bs txs) cd s = Some s' \<and>
           st_db s' = synced_db (chain_client bs txs) cd bs (length bs) \<and>
           get_db_height cd (st_db s') = int (length bs) - 1 \<and>
           (\<forall>i < length bs.
              (format_hashes (hash (bs ! i)), serialize_block cd (bs ! i)) \<in> set (st_db s'))"
proof -
  from fetch_new_blocks_canonical [OF assms] obtain s' where
    r: "fetch_new_blocks (chain_client bs txs) cd s = Some s'" and
    d: "st_db s' = synced_db (chain_client bs txs) cd bs (length bs)" by blast
  have "get_db_height cd (st_db s') = int (length bs) - 1"
    using get_db_height_synced [OF assms(1,2) order.refl] d by simp
  moreover have "\<forall>i < length bs.
      (format_hashes (hash (bs ! i)), serialize_block cd (bs ! i)) \<in> set (st_db s')"
    using d by (auto intro: synced_db_block [OF assms(1) _ order.refl])
  ultimately show ?thesis using r d by blast
qed

text \<open>
  C2. A run never re-fetches what is persisted and never skips a height: its RPC calls
  are the block count, the hash at the watermark \<open>+ 1\<close> (here \<open>k\<close>), and then,
  for each block from height \<open>k\<close> up to the tip in increasing order, one
  \<open>getblock\<close> of that block followed by one \<open>getrawtransaction\<close> per transaction
  id in the block's order.
\<close>

theorem sync_fetches_each_new_block_once:
  assumes "canonical_chain bs" and "codec_ok cd" and "k \<le> length bs"
    and "st_db s = synced_db (chain_client bs txs) cd bs k"
  shows "\<exists>s'. fetch_new_blocks (chain_client bs txs) cd s = Some s' \<and>
           rpc_calls (st_events s') = rpc_calls (st_events s) @
             RpcGetBlockCount # RpcGetBlockHash (int k) #
             concat (map (\<lambda>b. RpcGetBlock (hash b) # map RpcGetRawTransaction (tx b)) (drop k bs))"
  using fetch_new_blocks_canonical [OF assms] by (auto simp: sync_rpcs_def)

text \<open>
  C3. Idempotent resume (spec section 8): on a store that already holds the whole
  canonical chain, a run makes only the block-count and the hash-at-watermark calls, the
  latter failing past the tip, and leaves the store unchanged (no write at all).
\<close>

theorem resume_is_idempotent:
  assumes "canonical_chain bs" and "codec_ok cd"
    and "st_db s = synced_db (chain_client bs txs) cd bs (length bs)"
  shows "fetch_new_blocks (chain_client bs txs) cd s =
           Some (s\<lparr>st_events := st_events s @
                   [RpcGetBlockCount, RpcGetBlockHash (int (length bs))]\<rparr>)"
proof -
  have "get_db_height cd (st_db s) = int (length bs) - 1"
    using get_db_height_synced [OF assms(1,2) order.refl] assms(3) by simp
  then show ?thesis
    by (simp add: fetch_new_blocks_def Let_def sync_simps canonical_getblockhash rpc_call_def
        chain_client_def)
qed

text \<open>
  C25. Type-ambiguous decoding (spec section 9): the watermark scan tries every stored
  value as a \<open>FullBlock\<close> first. If any stored value, a transaction record
  included, decodes as a block of height at least \<open>j\<close>, then a run against the
  canonical chain never requests block \<open>j\<close> and leaves its key as it was: a block
  that is not yet stored stays missing.
\<close>

theorem misdecoded_value_skips_blocks:
  assumes canon: "canonical_chain bs" and wf: "db_wf (st_db s)"
    and mem: "(key, v) \<in> set (st_db s)" and dec: "deserialize_block cd v = Inr b'"
    and j: "j < length bs" and hj: "int j \<le> height b'"
  shows "\<exists>s' es. fetch_new_blocks (chain_client bs txs) cd s = Some s' \<and>
           rpc_calls (st_events s') = rpc_calls (st_events s) @ es \<and>
           RpcGetBlock (hash (bs ! j)) \<notin> set es \<and>
           map_of (st_db s') (format_hashes (hash (bs ! j))) =
             map_of (st_db s) (format_hashes (hash (bs ! j)))"
proof -
  let ?cl = "chain_client bs txs" and ?W = "get_db_height cd (st_db s)"
  have jW: "int j \<le> ?W" using get_db_height_ge [OF mem dec] hj by simp
  show ?thesis
  proof (cases "?W + 1 < int (length bs)")
    case True
    define m where "m = nat (?W + 1)"
    have m: "m \<le> length bs" "?W = int m - 1" "j < m" using True jW by (simp_all add: m_def)
    from fetch_new_blocks_from_watermark [OF canon m(1) m(2), of txs] obtain s' where
      f: "fetch_new_blocks ?cl cd s = Some s'" and
      d: "st_db s' = db_write (concat (map (block_entries ?cl cd) (drop m bs))) (st_db s)" and
      r: "rpc_calls (st_events s') = rpc_calls (st_events s) @
            RpcGetBlockCount # RpcGetBlockHash (int m) # sync_rpcs (drop m bs)"
      by blast
    have "map_of (st_db s') (format_hashes (hash (bs ! j))) =
        map_of (st_db s) (format_hashes (hash (bs ! j)))"
      using d wf entries_drop_block_key [OF canon m(3), of ?cl cd] by (simp add: map_of_db_write map_add_def)
    with f r sync_rpcs_drop_notin [OF canon m(3)] show ?thesis by auto
  next
    case False
    then have "fetch_new_blocks ?cl cd s = Some (s\<lparr>st_events := st_events s @
        [RpcGetBlockCount, RpcGetBlockHash (?W + 1)]\<rparr>)"
      by (simp add: fetch_new_blocks_def chain_client_def rpc_call_def)
    then show ?thesis by simp
  qed
qed

end
