(* ===== verification/Trace.thy ===== *)
theory Trace
  imports Chain
begin

text \<open>
  The exact effect sequence of a run (\<open>fetch_new_blocks\<close>, \<open>src/src/main.rs\<close>
  lines 10--87), flushes included. \<open>chain_trace\<close> is the reference for the loop of
  lines 47--84: the fuelled traversal of \<open>chain_blocks\<close>, listing for each block the
  \<open>getblock\<close> call, the enricher's effects, and the \<open>db.write(batch)\<close> of line 68 when
  the loop counter is a multiple of 100 and the block has a successor. Along a canonical
  chain the counter is the block's height, which gives the closed form
  \<open>canonical_trace\<close>; \<open>run_events\<close> adds the calls before the loop and the final
  write of line 86.
\<close>

fun chain_trace :: "'d client \<Rightarrow> ('v, 'd) codec \<Rightarrow> nat \<Rightarrow> height \<Rightarrow> string \<Rightarrow> 'v event list" where
  "chain_trace cl cd 0 h bh = []"
| "chain_trace cl cd (Suc n) h bh =
     RpcGetBlock bh #
       (case getblock cl bh of
          Inl err \<Rightarrow> []
        | Inr b \<Rightarrow> block_events cl cd b @
            (case nextblockhash b of
               None \<Rightarrow> []
             | Some nh \<Rightarrow> (if h mod 100 = 0 then [DbWrite []] else []) @ chain_trace cl cd n (h + 1) nh))"

definition block_trace :: "'d client \<Rightarrow> ('v, 'd) codec \<Rightarrow> full_block list \<Rightarrow> nat \<Rightarrow> 'v event list" where
  "block_trace cl cd bs i =
     RpcGetBlock (hash (bs ! i)) # block_events cl cd (bs ! i) @
       (if Suc i < length bs \<and> int i mod 100 = 0 then [DbWrite []] else [])"

definition canonical_trace :: "'d client \<Rightarrow> ('v, 'd) codec \<Rightarrow> full_block list \<Rightarrow> nat \<Rightarrow> 'v event list" where
  "canonical_trace cl cd bs k = concat (map (block_trace cl cd bs) [k..<length bs])"

definition run_events :: "'d client \<Rightarrow> ('v, 'd) codec \<Rightarrow> full_block list \<Rightarrow> nat \<Rightarrow> 'v event list" where
  "run_events cl cd bs k =
     RpcGetBlockCount # RpcGetBlockHash (int k) #
       (if k < length bs then canonical_trace cl cd bs k @ [DbWrite []] else [])"

lemma walk_chain_trace:
  "chain_blocks cl n bh = Some bs \<Longrightarrow>
     \<exists>s'. walk cl cd h bh [] s = Some ([], s') \<and>
          st_events s' = st_events s @ chain_trace cl cd n h bh \<and>
          st_db s' = replay_store (chain_trace cl cd n h bh) (st_db s)"
proof (induction n arbitrary: h bh bs s)
  case 0
  then show ?case by simp
next
  case (Suc n)
  show ?case
  proof (cases "getblock cl bh")
    case (Inl err)
    then show ?thesis by (simp add: walk_getblock_Inl sync_simps replay_store_Cons)
  next
    case (Inr b)
    let ?s2 = "parse_block cl cd b (rpc_call (RpcGetBlock bh) s)"
    have s2: "st_events ?s2 = st_events s @ RpcGetBlock bh # block_events cl cd b"
        "st_db ?s2 = replay_store (RpcGetBlock bh # block_events cl cd b) (st_db s)"
      by (simp_all add: parse_block_effects replay_store_Cons replay_block_events)
    show ?thesis
    proof (cases "nextblockhash b")
      case None
      with Inr s2 show ?thesis by (simp add: walk_tip)
    next
      case (Some nh)
      with Inr Suc.prems obtain bs' where bs': "chain_blocks cl n nh = Some bs'" by auto
      let ?w = "if h mod 100 = 0 then [DbWrite []] else ([] :: 'b event list)"
      let ?s3 = "if h mod 100 = 0 then st_write [] ?s2 else ?s2"
      have s3: "st_events ?s3 = st_events s @ (RpcGetBlock bh # block_events cl cd b @ ?w)"
          "st_db ?s3 = replay_store (RpcGetBlock bh # block_events cl cd b @ ?w) (st_db s)"
        using s2 by (simp_all add: sync_simps replay_store_append replay_store_Cons)
      from Suc.IH [OF bs', of "h + 1" ?s3] obtain s' where
        w: "walk cl cd (h + 1) nh [] ?s3 = Some ([], s')" and
        e: "st_events s' = st_events ?s3 @ chain_trace cl cd n (h + 1) nh" and
        d: "st_db s' = replay_store (chain_trace cl cd n (h + 1) nh) (st_db ?s3)"
        by blast
      have "walk cl cd h bh [] s = walk cl cd (h + 1) nh [] ?s3"
        using Inr Some by (simp add: walk_next Let_def)
      with w e d s3 Inr Some show ?thesis by (simp add: replay_store_append replay_store_Cons)
    qed
  qed
qed

lemma canonical_trace_Cons:
  "k < length bs \<Longrightarrow> canonical_trace cl cd bs k = block_trace cl cd bs k @ canonical_trace cl cd bs (Suc k)"
  by (simp add: canonical_trace_def upt_conv_Cons)

lemma canonical_trace_end: "length bs \<le> k \<Longrightarrow> canonical_trace cl cd bs k = []"
  by (simp add: canonical_trace_def)

lemma chain_trace_canonical:
  assumes "canonical_chain bs" and "i < length bs"
  shows "chain_trace (chain_client bs txs) cd (length bs - i) (int i) (hash (bs ! i)) =
           canonical_trace (chain_client bs txs) cd bs i"
proof -
  have "m = length bs - i \<Longrightarrow> i < length bs \<Longrightarrow>
      chain_trace (chain_client bs txs) cd m (int i) (hash (bs ! i)) =
        canonical_trace (chain_client bs txs) cd bs i" for m
  proof (induction m arbitrary: i)
    case 0
    then show ?case by simp
  next
    case (Suc m)
    note gb = canonical_getblock [OF assms(1) Suc.prems(2), of txs]
    note nx = canonical_nth [OF assms(1) Suc.prems(2)]
    note ct = canonical_trace_Cons [OF Suc.prems(2), of "chain_client bs txs" cd]
    show ?case
    proof (cases "Suc i < length bs")
      case True
      with Suc.prems have "m = length bs - Suc i" by simp
      from Suc.IH [OF this True] gb nx True ct show ?thesis
        by (simp add: block_trace_def add.commute)
    next
      case False
      with gb nx ct show ?thesis by (simp add: block_trace_def canonical_trace_end)
    qed
  qed
  with assms show ?thesis by blast
qed

lemma fetch_new_blocks_canonical_trace:
  assumes "canonical_chain bs" and "k \<le> length bs"
    and "get_db_height cd (st_db s) = int k - 1"
  shows "\<exists>s'. fetch_new_blocks (chain_client bs txs) cd s = Some s' \<and>
           st_events s' = st_events s @ run_events (chain_client bs txs) cd bs k \<and>
           st_db s' = replay_store (run_events (chain_client bs txs) cd bs k) (st_db s)"
proof -
  let ?cl = "chain_client bs txs"
  have gc: "getblockcount ?cl = Inr (int (length bs) - 1)" by (simp add: chain_client_def)
  show ?thesis
  proof (cases "k < length bs")
    case False
    with assms(2) have k: "k = length bs" by simp
    have "fetch_new_blocks ?cl cd s =
        Some (rpc_call (RpcGetBlockHash (int k)) (rpc_call RpcGetBlockCount s))"
      using assms(3) gc k by (simp add: fetch_new_blocks_def Let_def sync_simps canonical_getblockhash)
    with k show ?thesis by (simp add: sync_simps run_events_def replay_store_Cons)
  next
    case True
    let ?s1 = "rpc_call (RpcGetBlockHash (int k)) (rpc_call RpcGetBlockCount s)"
    from chain_blocks_canonical [OF assms(1) True, of txs] have
      cb: "chain_blocks ?cl (length bs - k) (hash (bs ! k)) = Some (drop k bs)" by blast
    from walk_chain_trace [OF cb, of cd "int k" ?s1] obtain s2 where
      w: "walk ?cl cd (int k) (hash (bs ! k)) [] ?s1 = Some ([], s2)" and
      e: "st_events s2 = st_events ?s1 @ chain_trace ?cl cd (length bs - k) (int k) (hash (bs ! k))" and
      d: "st_db s2 = replay_store (chain_trace ?cl cd (length bs - k) (int k) (hash (bs ! k))) (st_db ?s1)"
      by blast
    have f: "fetch_new_blocks ?cl cd s = Some (st_write [] s2)"
      using assms(3) gc True w by (simp add: fetch_new_blocks_def Let_def sync_simps canonical_getblockhash)
    note tr = chain_trace_canonical [OF assms(1) True, of txs cd]
    from f e d tr True show ?thesis
      by (simp add: sync_simps run_events_def replay_store_Cons replay_store_append)
  qed
qed

text \<open>
  C18. The exact effects of a run on a canonical chain (spec sections 4.2 and 4.4): from
  a store whose watermark is \<open>k - 1\<close>, the run calls \<open>getblockcount\<close> and
  \<open>getblockhash(k)\<close>, then for each block from height \<open>k\<close> to the tip in order
  calls \<open>getblock\<close>, stores the block and its transactions, and writes the batch
  right after each block whose height is a multiple of 100 and that has a successor;
  it ends with one last batch write. Every batch written is empty. The store it leaves
  is the replay of exactly these effects.
\<close>

theorem fetch_new_blocks_trace:
  assumes "canonical_chain bs" and "k \<le> length bs"
    and "get_db_height cd (st_db s) = int k - 1"
  shows "\<exists>s'. fetch_new_blocks (chain_client bs txs) cd s = Some s' \<and>
           st_events s' = st_events s @ run_events (chain_client bs txs) cd bs k \<and>
           st_db s' = replay_store (run_events (chain_client bs txs) cd bs k) (st_db s)"
  using assms by (rule fetch_new_blocks_canonical_trace)

end
