(* ===== verification/Process.thy ===== *)
theory Process
  imports Walker
begin

text \<open>
  The process, \<open>main\<close> (\<open>src/src/main.rs\<close> lines 196--213): it opens the RocksDB
  database in \<open>DB_DIR\<close> with \<open>DB::open_default(..).unwrap()\<close>, builds the RPC client
  from fixed settings, and runs \<open>fetch_new_blocks\<close> once. The opened database is the
  store left on disk by the previous process, or the storage error that makes
  \<open>unwrap\<close> panic before any RPC call; the client is the node it talks to. A run starts
  with an empty effect log, so the process's effects are exactly its run's effects.
\<close>

definition main_prog ::
  "rocks_error + 'v db \<Rightarrow> 'd client \<Rightarrow> ('v, 'd) codec \<Rightarrow> rocks_error + 'v sync_state option" where
  "main_prog opened client cd =
     (case opened of
        Inl err \<Rightarrow> Inl err
      | Inr db \<Rightarrow> Inr (fetch_new_blocks client cd \<lparr>st_db = db, st_events = []\<rparr>))"

lemma main_prog_opened:
  "main_prog (Inr d) cl cd = Inr r \<longleftrightarrow> fetch_new_blocks cl cd \<lparr>st_db = d, st_events = []\<rparr> = r"
  by (simp add: main_prog_def)

end
