(* ===== verification/Recovery.thy ===== *)
theory Recovery
  imports Trace Process
begin

text \<open>
  Restarts and crashes. The spec's deployment runs \<open>main\<close> again and again against
  one remote chain, and any process may stop after any of its effects: killed from
  outside, or panicking in one of the \<open>unwrap\<close> calls on \<open>put\<close>, \<open>write\<close> and
  \<open>serialize\<close>. A RocksDB \<open>put\<close> or \<open>write\<close> that returned is in the store the next
  process opens. \<open>reachable_store\<close> is the set of stores this can leave on disk: the
  empty store of a first start, and every store obtained from a reachable one by a
  process that completes a run or stops after any prefix of that run's effects.

  The invariant \<open>recoverable\<close> says such a store holds only entries of the chain,
  the records of its first \<open>m\<close> blocks among them, and nothing of a later block. It
  holds in every reachable store (rule induction over \<open>reachable_store\<close>); from it
  follow the watermark, the absence of gaps below it, recovery by one complete run,
  and that the \<open>i64\<close> addition of the start height never overflows.
\<close>

definition tx_puts :: "'d client \<Rightarrow> ('v, 'd) codec \<Rightarrow> full_block \<Rightarrow> 'v write_batch" where
  "tx_puts cl cd b = concat (map (\<lambda>t. tx_entries cl cd t @ tx_entries cl cd t) (tx b))"

definition recoverable_at ::
  "'d client \<Rightarrow> ('v, 'd) codec \<Rightarrow> full_block list \<Rightarrow> 'v db \<Rightarrow> nat \<Rightarrow> bool" where
  "recoverable_at cl cd bs d m \<longleftrightarrow>
     m \<le> length bs \<and> db_wf d \<and>
     set d \<subseteq> set (concat (map (block_entries cl cd) (take m bs))) \<and>
     (\<forall>i < m. (format_hashes (hash (bs ! i)), serialize_block cd (bs ! i)) \<in> set d)"

definition recoverable :: "'d client \<Rightarrow> ('v, 'd) codec \<Rightarrow> full_block list \<Rightarrow> 'v db \<Rightarrow> bool" where
  "recoverable cl cd bs d \<longleftrightarrow> list_ex (recoverable_at cl cd bs d) [0..<Suc (length bs)]"

inductive reachable_store :: "'d client \<Rightarrow> ('v, 'd) codec \<Rightarrow> 'v db \<Rightarrow> bool"
  for cl cd
where
  fresh: "reachable_store cl cd []"
| restart: "reachable_store cl cd d \<Longrightarrow> main_prog (Inr d) cl cd = Inr (Some s) \<Longrightarrow>
    reachable_store cl cd (replay_store (take n (st_events s)) d)"

subsection \<open>The effects of a run as puts\<close>

lemma puts_concat:
  "concat (map event_puts (concat ess)) = concat (map (\<lambda>es. concat (map event_puts es)) ess)"
  by (induction ess) simp_all

lemma tx_events_puts:
  "concat (map event_puts (tx_events cl cd t)) = tx_entries cl cd t @ tx_entries cl cd t"
  by (simp add: tx_events_def tx_entries_def split: sum.split)

lemma block_trace_puts:
  "concat (map event_puts (block_trace cl cd bs i)) =
     (format_hashes (hash (bs ! i)), serialize_block cd (bs ! i)) # tx_puts cl cd (bs ! i)"
  by (simp add: block_trace_def block_events_def tx_puts_def puts_concat tx_events_puts comp_def)

lemma run_events_puts:
  "concat (map event_puts (run_events cl cd bs k)) =
     concat (map (\<lambda>i. (format_hashes (hash (bs ! i)), serialize_block cd (bs ! i)) # tx_puts cl cd (bs ! i))
       [k..<length bs])"
  by (simp add: run_events_def canonical_trace_def puts_concat block_trace_puts comp_def)

lemma set_block_puts:
  "set ((format_hashes (hash b), serialize_block cd b) # tx_puts cl cd b) = set (block_entries cl cd b)"
  by (auto simp: tx_puts_def block_entries_def)

subsection \<open>The invariant\<close>

lemma recoverable_iff: "recoverable cl cd bs d \<longleftrightarrow> (\<exists>m. recoverable_at cl cd bs d m)"
proof
  assume "recoverable cl cd bs d"
  then show "\<exists>m. recoverable_at cl cd bs d m" by (auto simp: recoverable_def list_ex_iff)
next
  assume "\<exists>m. recoverable_at cl cd bs d m"
  then obtain m where r: "recoverable_at cl cd bs d m" by blast
  then have "m \<in> set [0..<Suc (length bs)]" by (auto simp: recoverable_at_def)
  with r show "recoverable cl cd bs d" unfolding recoverable_def list_ex_iff by blast
qed

lemma recoverable_at_watermark:
  assumes "canonical_chain bs" and "codec_ok cd" and "recoverable_at cl cd bs d m"
  shows "get_db_height cd d = int m - 1"
proof (rule get_db_height_prefix_store [OF assms(1,2)])
  show "m \<le> length bs" "set d \<subseteq> set (concat (map (block_entries cl cd) (take m bs)))"
    using assms(3) by (simp_all add: recoverable_at_def)
  assume "0 < m"
  with assms(3) show "(format_hashes (hash (bs ! (m - 1))), serialize_block cd (bs ! (m - 1))) \<in> set d"
    by (simp add: recoverable_at_def)
qed

lemma nth_in_take: "i < j \<Longrightarrow> i < length bs \<Longrightarrow> bs ! i \<in> set (take j bs)"
  by (metis in_set_conv_nth length_take min_less_iff_conj nth_take)

text \<open>
  Writing entries of blocks \<open>m\<close> to \<open>j - 1\<close> that include the record of each of them
  takes a store recoverable at \<open>m\<close> to one recoverable at \<open>j\<close>.
\<close>

lemma write_blocks_recoverable:
  assumes canon: "canonical_chain bs" and rec: "recoverable_at cl cd bs d m"
    and j: "m \<le> j" "j \<le> length bs"
    and sub: "\<forall>e \<in> set P. \<exists>i. m \<le> i \<and> i < j \<and> e \<in> set (block_entries cl cd (bs ! i))"
    and blk: "\<forall>i. m \<le> i \<and> i < j \<longrightarrow> (format_hashes (hash (bs ! i)), serialize_block cd (bs ! i)) \<in> set P"
  shows "recoverable_at cl cd bs (db_write P d) j"
proof -
  let ?E = "\<lambda>k. set (concat (map (block_entries cl cd) (take k bs)))"
  from rec have m: "m \<le> length bs" "db_wf d" "set d \<subseteq> ?E m"
    "\<forall>i < m. (format_hashes (hash (bs ! i)), serialize_block cd (bs ! i)) \<in> set d"
    by (simp_all add: recoverable_at_def)
  have Em: "?E m \<subseteq> ?E j"
    using set_take_subset_set_take [OF j(1), of bs] by auto
  have EP: "set P \<subseteq> ?E j"
  proof
    fix e assume "e \<in> set P"
    with sub obtain i where i: "m \<le> i" "i < j" "e \<in> set (block_entries cl cd (bs ! i))" by blast
    from i(2) j(2) have "bs ! i \<in> set (take j bs)" by (intro nth_in_take) simp_all
    with i(3) show "e \<in> ?E j" by auto
  qed
  have all: "set d \<union> set P \<subseteq> set (concat (map (block_entries cl cd) bs))"
    using m(3) Em EP entries_take_subset [of cl cd j bs] by blast
  have "set (db_write P d) \<subseteq> ?E j"
    using set_db_write [of P d] m(3) Em EP by blast
  moreover have "(format_hashes (hash (bs ! i)), serialize_block cd (bs ! i)) \<in> set (db_write P d)"
    if "i < j" for i
  proof (rule chain_prefix_write_mem [OF canon m(2) all])
    show "(format_hashes (hash (bs ! i)), serialize_block cd (bs ! i)) \<in> set d \<union> set P"
    proof (cases "i < m")
      case True
      with m(4) show ?thesis by simp
    next
      case False
      with that blk show ?thesis by simp
    qed
  qed
  ultimately show ?thesis
    using j(2) m(2) by (simp add: recoverable_at_def db_write_wf)
qed

text \<open>
  A process on a recoverable store runs \<open>run_events\<close> from its watermark; stopped after
  any prefix of them, it has written whole blocks' puts and then part of one more.
\<close>

lemma main_prog_run_events:
  assumes canon: "canonical_chain bs" and ok: "codec_ok cd"
    and rec: "recoverable_at (chain_client bs txs) cd bs d m"
    and run: "main_prog (Inr d) (chain_client bs txs) cd = Inr (Some s)"
  shows "st_events s = run_events (chain_client bs txs) cd bs m \<and>
         st_db s = replay_store (run_events (chain_client bs txs) cd bs m) d"
proof -
  from rec have m: "m \<le> length bs" by (simp add: recoverable_at_def)
  from fetch_new_blocks_canonical_trace [OF canon m, where s = "\<lparr>st_db = d, st_events = []\<rparr>" and txs = txs and cd = cd]
    recoverable_at_watermark [OF canon ok rec] obtain s' where
    "fetch_new_blocks (chain_client bs txs) cd \<lparr>st_db = d, st_events = []\<rparr> = Some s'"
    "st_events s' = run_events (chain_client bs txs) cd bs m"
    "st_db s' = replay_store (run_events (chain_client bs txs) cd bs m) d" by auto
  with run show ?thesis by (simp add: main_prog_opened)
qed

lemma run_prefix_puts:
  "\<exists>n'. replay_store (take n (run_events cl cd bs m)) d =
     db_write (take n' (concat (map (\<lambda>i. (format_hashes (hash (bs ! i)), serialize_block cd (bs ! i)) #
       tx_puts cl cd (bs ! i)) [m..<length bs]))) d"
proof -
  obtain n' where "concat (map event_puts (take n (run_events cl cd bs m))) =
      take n' (concat (map event_puts (run_events cl cd bs m)))"
    using concat_map_take_prefix [of event_puts n "run_events cl cd bs m"] by blast
  then show ?thesis by (auto simp: replay_store_puts run_events_puts)
qed

text \<open>A process started on a recoverable store leaves a recoverable store, wherever it stops.\<close>

lemma restart_recoverable:
  assumes canon: "canonical_chain bs" and ok: "codec_ok cd"
    and rec: "recoverable_at (chain_client bs txs) cd bs d m"
    and run: "main_prog (Inr d) (chain_client bs txs) cd = Inr (Some s)"
  shows "\<exists>j \<ge> m. recoverable_at (chain_client bs txs) cd bs (replay_store (take n (st_events s)) d) j"
proof -
  let ?cl = "chain_client bs txs"
  let ?blk = "\<lambda>i. (format_hashes (hash (bs ! i)), serialize_block cd (bs ! i))"
  let ?g = "\<lambda>i. ?blk i # tx_puts ?cl cd (bs ! i)"
  from rec have m: "m \<le> length bs" by (simp add: recoverable_at_def)
  from main_prog_run_events [OF canon ok rec run] obtain n' where
    d': "replay_store (take n (st_events s)) d = db_write (take n' (concat (map ?g [m..<length bs]))) d"
    using run_prefix_puts [of n ?cl cd bs m d] by auto
  let ?P = "take n' (concat (map ?g [m..<length bs]))"
  from take_concat_heads [where n = n' and h = ?blk and r = "\<lambda>i. tx_puts ?cl cd (bs ! i)"
      and xs = "[m..<length bs]"] obtain j' where
    j': "j' \<le> length bs - m" "set ?P \<subseteq> set (concat (map ?g (take j' [m..<length bs])))"
      "\<forall>i \<in> set (take j' [m..<length bs]). ?blk i \<in> set ?P" by auto
  have mj: "m + j' \<le> length bs" using j'(1) m by simp
  then have tk: "take j' [m..<length bs] = [m..<m + j']" by (rule take_upt)
  have "recoverable_at ?cl cd bs (db_write ?P d) (m + j')"
  proof (rule write_blocks_recoverable [OF canon rec])
    show "m \<le> m + j'" "m + j' \<le> length bs" using mj by simp_all
    show "\<forall>e \<in> set ?P. \<exists>i. m \<le> i \<and> i < m + j' \<and> e \<in> set (block_entries ?cl cd (bs ! i))"
    proof
      fix e assume "e \<in> set ?P"
      with j'(2) have "e \<in> set (concat (map ?g (take j' [m..<length bs])))" by (rule subsetD)
      then obtain i where "i \<in> set [m..<m + j']" "e \<in> set (?g i)"
        unfolding tk by (blast dest: in_set_concat_map)
      then show "\<exists>i. m \<le> i \<and> i < m + j' \<and> e \<in> set (block_entries ?cl cd (bs ! i))"
        unfolding set_block_puts by auto
    qed
    show "\<forall>i. m \<le> i \<and> i < m + j' \<longrightarrow> ?blk i \<in> set ?P"
      using j'(3) tk by simp
  qed
  with d' show ?thesis by (intro exI [of _ "m + j'"]) simp
qed

lemma reachable_recoverable_at:
  assumes "reachable_store (chain_client bs txs) cd d" and "canonical_chain bs" and "codec_ok cd"
  shows "\<exists>m. recoverable_at (chain_client bs txs) cd bs d m"
  using assms(1)
proof (induction rule: reachable_store.induct)
  case fresh
  have "recoverable_at (chain_client bs txs) cd bs [] 0" by (simp add: recoverable_at_def db_wf_def)
  then show ?case by blast
next
  case (restart d s n)
  from restart.IH obtain m where "recoverable_at (chain_client bs txs) cd bs d m" by blast
  from restart_recoverable [OF assms(2,3) this restart.hyps(2)] show ?case by blast
qed

text \<open>
  C6. Crash-safety invariant (spec sections 7 and 8): every store that a sequence of
  processes can leave on disk, each completing its run or stopping after any of its
  effects, is recoverable: well-formed, holding only entries of the chain, and holding
  the records of exactly a prefix of the chain's blocks.
\<close>

theorem reachable_store_recoverable:
  assumes "reachable_store (chain_client bs txs) cd d" and "canonical_chain bs" and "codec_ok cd"
  shows "recoverable (chain_client bs txs) cd bs d"
  using reachable_recoverable_at [OF assms] by (simp add: recoverable_iff)

text \<open>
  C7. No gaps under crashes (spec section 8, strengthened): in every reachable store the
  watermark lies between \<open>-1\<close> and the chain's tip, the record of every block at or
  below it is stored, and every stored entry is an entry of the chain.
\<close>

theorem crash_restart_no_gaps:
  assumes "reachable_store (chain_client bs txs) cd d" and "canonical_chain bs" and "codec_ok cd"
  shows "-1 \<le> get_db_height cd d \<and> get_db_height cd d < int (length bs) \<and>
         (\<forall>i. int i \<le> get_db_height cd d \<longrightarrow>
            (format_hashes (hash (bs ! i)), serialize_block cd (bs ! i)) \<in> set d) \<and>
         set d \<subseteq> set (concat (map (block_entries (chain_client bs txs) cd) bs))"
proof -
  from reachable_recoverable_at [OF assms] obtain m where
    r: "recoverable_at (chain_client bs txs) cd bs d m" by blast
  from recoverable_at_watermark [OF assms(2,3) r] have w: "get_db_height cd d = int m - 1" .
  from r have "m \<le> length bs"
    "set d \<subseteq> set (concat (map (block_entries (chain_client bs txs) cd) (take m bs)))"
    "\<forall>i < m. (format_hashes (hash (bs ! i)), serialize_block cd (bs ! i)) \<in> set d"
    by (simp_all add: recoverable_at_def)
  with w entries_take_subset [of "chain_client bs txs" cd m bs] show ?thesis by auto
qed

text \<open>
  C8. Recovery (spec section 1: the archive survives restarts and resumes where it left
  off): from every reachable store one process that runs to completion stores the
  record of every block of the chain and leaves the watermark at the tip.
\<close>

theorem crash_restart_recovers:
  assumes "reachable_store (chain_client bs txs) cd d" and "canonical_chain bs" and "codec_ok cd"
  shows "\<exists>s. main_prog (Inr d) (chain_client bs txs) cd = Inr (Some s) \<and>
           get_db_height cd (st_db s) = int (length bs) - 1 \<and>
           (\<forall>i < length bs. (format_hashes (hash (bs ! i)), serialize_block cd (bs ! i)) \<in> set (st_db s))"
proof -
  let ?cl = "chain_client bs txs"
  let ?g = "\<lambda>i. (format_hashes (hash (bs ! i)), serialize_block cd (bs ! i)) # tx_puts ?cl cd (bs ! i)"
  from reachable_recoverable_at [OF assms] obtain m where r: "recoverable_at ?cl cd bs d m" by blast
  then have m: "m \<le> length bs" by (simp add: recoverable_at_def)
  from fetch_new_blocks_canonical_trace [OF assms(2) m, where s = "\<lparr>st_db = d, st_events = []\<rparr>" and txs = txs and cd = cd]
    recoverable_at_watermark [OF assms(2,3) r] obtain s where
    f: "fetch_new_blocks ?cl cd \<lparr>st_db = d, st_events = []\<rparr> = Some s" and
    sd: "st_db s = replay_store (run_events ?cl cd bs m) d" by auto
  have sd': "st_db s = db_write (concat (map ?g [m..<length bs])) d"
    by (simp add: sd replay_store_puts run_events_puts)
  have "recoverable_at ?cl cd bs (st_db s) (length bs)"
    unfolding sd'
  proof (rule write_blocks_recoverable [OF assms(2) r m order.refl])
    show "\<forall>e \<in> set (concat (map ?g [m..<length bs])). \<exists>i. m \<le> i \<and> i < length bs \<and>
        e \<in> set (block_entries ?cl cd (bs ! i))"
    proof
      fix e assume "e \<in> set (concat (map ?g [m..<length bs]))"
      then obtain i where "i \<in> set [m..<length bs]" "e \<in> set (?g i)" by (blast dest: in_set_concat_map)
      then show "\<exists>i. m \<le> i \<and> i < length bs \<and> e \<in> set (block_entries ?cl cd (bs ! i))"
        unfolding set_block_puts by auto
    qed
    show "\<forall>i. m \<le> i \<and> i < length bs \<longrightarrow>
        (format_hashes (hash (bs ! i)), serialize_block cd (bs ! i)) \<in> set (concat (map ?g [m..<length bs]))"
      by force
  qed
  with recoverable_at_watermark [OF assms(2,3) this] f show ?thesis
    by (auto simp: main_prog_opened recoverable_at_def)
qed


end
