(* ===== verification/Typing.thy ===== *)
theory Typing
  imports Recovery
begin

text \<open>
  The store's typing discipline (spec section 6): a key \<open>"blockhash: " ++ h\<close> holds a
  serialised \<open>FullBlock\<close> whose hash is \<open>h\<close>, and a key \<open>"transaction:" ++ t\<close>
  holds a serialised \<open>GetRawTransactionInfo\<close> whose \<open>txid\<close> is \<open>t\<close>; no other key
  occurs. \<open>entry_typed\<close> checks one entry by decoding it, \<open>store_typed\<close> the whole
  store. The enricher keeps the discipline because it writes the requested id into the
  record's \<open>txid\<close> (line 107), whatever the node answered. The invariant holds in every
  store reachable through runs and crashes, against any node, not only a canonical one.
\<close>

definition entry_typed :: "('v, 'd) codec \<Rightarrow> key \<times> 'v \<Rightarrow> bool" where
  "entry_typed cd e =
     (case parse_block_key (fst e) of
        Some h \<Rightarrow> (case deserialize_block cd (snd e) of Inr b \<Rightarrow> hash b = h | Inl err \<Rightarrow> False)
      | None \<Rightarrow>
          (case parse_tx_key (fst e) of
             Some t \<Rightarrow> (case deserialize_tx cd (snd e) of Inr r \<Rightarrow> txid r = t | Inl err \<Rightarrow> False)
           | None \<Rightarrow> False))"

definition store_typed :: "('v, 'd) codec \<Rightarrow> 'v db \<Rightarrow> bool" where
  "store_typed cd d = list_all (entry_typed cd) d"

definition event_typed :: "('v, 'd) codec \<Rightarrow> 'v event \<Rightarrow> bool" where
  "event_typed cd e = list_all (entry_typed cd) (event_puts e)"

lemma event_typed_no_puts [simp]:
  "event_typed cd RpcGetBlockCount" "event_typed cd (RpcGetBlockHash i)"
  "event_typed cd (RpcGetBlock h)" "event_typed cd (RpcGetRawTransaction t)"
  "event_typed cd (DbWrite [])"
  by (simp_all add: event_typed_def)

lemma entry_typed_block:
  "codec_roundtrip cd \<Longrightarrow> entry_typed cd (format_hashes (hash b), serialize_block cd b)"
  by (simp add: entry_typed_def codec_roundtrip_def)

lemma entry_typed_tx:
  "codec_roundtrip cd \<Longrightarrow> entry_typed cd (tx_key t, serialize_tx cd (assemble_tx t d))"
  by (simp add: entry_typed_def codec_roundtrip_def assemble_tx_def)

lemma block_events_typed:
  assumes "codec_roundtrip cd"
  shows "list_all (event_typed cd) (block_events cl cd b)"
proof -
  have "list_all (event_typed cd) (tx_events cl cd t)" for t
    using assms by (simp add: tx_events_def event_typed_def entry_typed_tx split: sum.split)
  then show ?thesis
    using assms by (simp add: block_events_def event_typed_def entry_typed_block list_all_iff)
qed

lemma walk_events_typed:
  assumes "walk cl cd h bh bt s = Some r" and "codec_roundtrip cd" and "bt = []"
  shows "\<exists>es. st_events (snd r) = st_events s @ es \<and> list_all (event_typed cd) es"
  using assms
proof (induction rule: walk_Some_induct)
  case (getblock_error cl cd h bh bt s e)
  then show ?case by (auto simp: sync_simps)
next
  case (tip cl cd h bh bt s b)
  then show ?case
    by (auto simp: parse_block_effects sync_simps block_events_typed)
next
  case (step cl cd h bh bt s b nh r)
  let ?es2 = "RpcGetBlock bh # block_events cl cd b @ (if h mod 100 = 0 then [DbWrite []] else [])"
  have s3: "st_events (if h mod 100 = 0 then st_write bt (parse_block cl cd b (rpc_call (RpcGetBlock bh) s))
      else parse_block cl cd b (rpc_call (RpcGetBlock bh) s)) = st_events s @ ?es2"
    using step.prems(2) by (simp add: parse_block_effects sync_simps)
  have t2: "list_all (event_typed cd) ?es2"
    using step.prems(1) by (simp add: block_events_typed)
  from step.IH step.prems obtain es where
    "st_events (snd r) = st_events s @ ?es2 @ es" "list_all (event_typed cd) es"
    by (auto simp: s3)
  with t2 show ?case by (intro exI [of _ "?es2 @ es"]) simp
qed

lemma fetch_new_blocks_events_typed:
  assumes "fetch_new_blocks cl cd s = Some s'" and "codec_roundtrip cd"
  shows "\<exists>es. st_events s' = st_events s @ es \<and> list_all (event_typed cd) es"
proof (cases "getblockcount cl")
  case (Inl err)
  with assms show ?thesis by (auto simp: fetch_new_blocks_def sync_simps)
next
  case (Inr best)
  let ?cur = "get_db_height cd (st_db s) + 1"
  let ?s1 = "rpc_call (RpcGetBlockHash ?cur) (rpc_call RpcGetBlockCount s)"
  show ?thesis
  proof (cases "getblockhash cl ?cur")
    case (Inl err)
    with assms Inr show ?thesis by (auto simp: fetch_new_blocks_def Let_def sync_simps)
  next
    case (Inr bh)
    with assms \<open>getblockcount cl = Inr best\<close>
    have "map_option (\<lambda>(bt, s2). st_write bt s2) (walk cl cd ?cur bh [] ?s1) = Some s'"
      by (simp add: fetch_new_blocks_def Let_def sync_simps)
    then obtain bt s2 where w: "walk cl cd ?cur bh [] ?s1 = Some (bt, s2)" and s': "s' = st_write bt s2"
      by auto
    from walk_effects [OF w] have bt: "bt = []" by auto
    from walk_events_typed [OF w assms(2)] obtain es where
      e: "st_events s2 = st_events ?s1 @ es" "list_all (event_typed cd) es" by auto
    have "st_events s' = st_events s @ ([RpcGetBlockCount, RpcGetBlockHash ?cur] @ es @ [DbWrite []])"
      using e(1) s' bt by (simp add: sync_simps)
    moreover have "list_all (event_typed cd) ([RpcGetBlockCount, RpcGetBlockHash ?cur] @ es @ [DbWrite []])"
      using e(2) by simp
    ultimately show ?thesis by blast
  qed
qed

lemma store_typed_write:
  assumes "store_typed cd d" and "list_all (entry_typed cd) P"
  shows "store_typed cd (db_write P d)"
  using assms set_db_write [of P d] by (auto simp: store_typed_def list_all_iff)

lemma event_typed_puts:
  "list_all (event_typed cd) es \<Longrightarrow> list_all (entry_typed cd) (concat (map event_puts es))"
  by (induction es) (simp_all add: event_typed_def)

text \<open>
  C9. Store typing (spec section 6) against any node: if the codec round-trips, every
  store reachable through runs and crashes is well-typed: each block key holds a block
  with that hash and each transaction key a transaction record with that id, even when
  the node is faulty, serves no canonical chain, or answers a transaction request with a
  record carrying another id.
\<close>

theorem reachable_store_typed:
  assumes "reachable_store cl cd d" and "codec_roundtrip cd"
  shows "store_typed cd d"
  using assms(1)
proof (induction rule: reachable_store.induct)
  case fresh
  then show ?case by (simp add: store_typed_def)
next
  case (restart d s n)
  from restart.hyps(2) have f: "fetch_new_blocks cl cd \<lparr>st_db = d, st_events = []\<rparr> = Some s"
    by (simp add: main_prog_opened)
  from fetch_new_blocks_events_typed [OF f assms(2)] have "list_all (event_typed cd) (st_events s)"
    by auto
  then have "list_all (event_typed cd) (take n (st_events s))"
    by (auto simp: list_all_iff dest: in_set_takeD)
  from event_typed_puts [OF this] restart.IH show ?case
    by (simp add: replay_store_puts store_typed_write)
qed

end
