(* ===== verification/Pipeline.thy ===== *)
theory Pipeline
  imports Walker
begin

text \<open>
  The spec's state-machine view of one run (section 5):
  \<open>Idle \<rightarrow> ResolvingTip \<rightarrow> ResolvingWatermark \<rightarrow> Walking(h) \<rightarrow>
  [Enriching(h) \<rightarrow> Walking(h+1)]* \<rightarrow> Draining \<rightarrow> Done\<close>, with \<open>Failed\<close> reachable
  when the tip is unknown or the first hash lookup fails. It is the abstract
  specification here: \<open>pipeline_step p es q\<close> is a labelled transition from phase
  \<open>p\<close> to \<open>q\<close> that emits the effects \<open>es\<close>, and \<open>pipeline_run\<close> its
  reflexive-transitive closure, concatenating the labels. The first hash lookup is
  the transition into \<open>Walking\<close>. An enrichment stores one block record and then
  only fetches transactions and stores records; a flush (\<open>DbWrite\<close>) comes only
  after enriching a height that is a multiple of 100, and once more when draining.

  The refinement theorem of this theory shows that the effects
  of every run of \<open>fetch_new_blocks\<close> that returns form one path of the machine from
  \<open>Idle\<close>, ending in \<open>Failed\<close> exactly on the two early returns and in \<open>Done\<close>
  otherwise. Properties proved of the machine by rule induction then hold of the
  code: a failed run stores nothing, and between two flushes at most 100 blocks are
  fetched.
\<close>

datatype phase =
    Idle
  | ResolvingTip
  | ResolvingWatermark
  | Walking height
  | Enriching height
  | Draining
  | Done
  | Failed

fun enrich_event :: "'v event \<Rightarrow> bool" where
  "enrich_event (RpcGetRawTransaction t) = True"
| "enrich_event (DbPut k v) = True"
| "enrich_event e = False"

inductive pipeline_step :: "phase \<Rightarrow> 'v event list \<Rightarrow> phase \<Rightarrow> bool" where
  query_tip: "pipeline_step Idle [RpcGetBlockCount] ResolvingTip"
| no_tip: "pipeline_step ResolvingTip [] Failed"
| tip_known: "pipeline_step ResolvingTip [] ResolvingWatermark"
| start: "0 \<le> h \<Longrightarrow> pipeline_step ResolvingWatermark [RpcGetBlockHash h] (Walking h)"
| no_start: "0 \<le> h \<Longrightarrow> pipeline_step ResolvingWatermark [RpcGetBlockHash h] Failed"
| fetch: "pipeline_step (Walking h) [RpcGetBlock bh] (Enriching h)"
| not_found: "pipeline_step (Walking h) [RpcGetBlock bh] Draining"
| advance: "list_all enrich_event es \<Longrightarrow>
    pipeline_step (Enriching h) (DbPut k v # es @ (if h mod 100 = 0 then [DbWrite b] else []))
      (Walking (h + 1))"
| at_tip: "list_all enrich_event es \<Longrightarrow> pipeline_step (Enriching h) (DbPut k v # es) Draining"
| drain: "pipeline_step Draining [DbWrite b] Done"

inductive pipeline_run :: "phase \<Rightarrow> 'v event list \<Rightarrow> phase \<Rightarrow> bool" where
  refl: "pipeline_run p [] p"
| step: "pipeline_step p es q \<Longrightarrow> pipeline_run q fs r \<Longrightarrow> pipeline_run p (es @ fs) r"

subsection \<open>Flush cadence\<close>

text \<open>
  \<open>fetches_within c es\<close>: starting with \<open>c\<close> blocks fetched since the last flush, the
  effects \<open>es\<close> never fetch a 101st block before flushing; \<open>unflushed_fetches\<close> is the
  count after \<open>es\<close>.
\<close>

fun fetches_within :: "nat \<Rightarrow> 'v event list \<Rightarrow> bool" where
  "fetches_within c [] = True"
| "fetches_within c (DbWrite b # es) = fetches_within 0 es"
| "fetches_within c (RpcGetBlock bh # es) = (c < 100 \<and> fetches_within (Suc c) es)"
| "fetches_within c (e # es) = fetches_within c es"

fun unflushed_fetches :: "nat \<Rightarrow> 'v event list \<Rightarrow> nat" where
  "unflushed_fetches c [] = c"
| "unflushed_fetches c (DbWrite b # es) = unflushed_fetches 0 es"
| "unflushed_fetches c (RpcGetBlock bh # es) = unflushed_fetches (Suc c) es"
| "unflushed_fetches c (e # es) = unflushed_fetches c es"

text \<open>The count each phase allows: in \<open>Walking h\<close>, the blocks since the last multiple of 100.\<close>

fun window_ok :: "phase \<Rightarrow> nat \<Rightarrow> bool" where
  "window_ok (Walking h) c = (int c \<le> (h - 1) mod 100)"
| "window_ok (Enriching h) c = (int c \<le> (h - 1) mod 100 + 1)"
| "window_ok Draining c = (c \<le> 100)"
| "window_ok p c = (c = 0)"

inductive_cases pipeline_step_DoneE [elim!]: "pipeline_step Done es q"
inductive_cases pipeline_step_FailedE [elim!]: "pipeline_step Failed es q"

lemma pipeline_run_trans:
  "pipeline_run p es q \<Longrightarrow> pipeline_run q fs r \<Longrightarrow> pipeline_run p (es @ fs) r"
  by (induction rule: pipeline_run.induct) (auto intro: pipeline_run.step)

lemma pipeline_run_step1 [intro]: "pipeline_step p es q \<Longrightarrow> pipeline_run p es q"
  using pipeline_run.step [OF _ pipeline_run.refl] by fastforce

subsection \<open>The walk as a path of the machine\<close>

lemma tx_events_enrich: "list_all enrich_event (concat (map (tx_events cl cd) ts))"
  by (induction ts) (simp_all add: tx_events_def split: sum.split)

lemma block_events_enrich:
  "\<exists>k v es. block_events cl cd b = DbPut k v # es \<and> list_all enrich_event es"
  by (simp add: block_events_def tx_events_enrich)

lemma walk_pipeline:
  assumes "walk cl cd h bh bt s = Some r"
  shows "\<exists>es. st_events (snd r) = st_events s @ es \<and> pipeline_run (Walking h) es Draining"
  using assms
proof (induction rule: walk_Some_induct)
  case (getblock_error cl cd h bh bt s e)
  have "pipeline_run (Walking h) [RpcGetBlock bh] Draining"
    by (intro pipeline_run_step1 pipeline_step.not_found)
  then show ?case by (auto simp: sync_simps)
next
  case (tip cl cd h bh bt s b)
  from block_events_enrich [of cl cd b] obtain k v es where
    be: "block_events cl cd b = DbPut k v # es" "list_all enrich_event es" by blast
  have "pipeline_run (Walking h) ([RpcGetBlock bh] @ block_events cl cd b) Draining"
    unfolding be(1)
    by (rule pipeline_run.step [OF pipeline_step.fetch])
      (intro pipeline_run_step1 pipeline_step.at_tip be(2))
  then show ?case by (auto simp: parse_block_effects)
next
  case (step cl cd h bh bt s b nh r)
  from block_events_enrich [of cl cd b] obtain k v es where
    be: "block_events cl cd b = DbPut k v # es" "list_all enrich_event es" by blast
  let ?fl = "if h mod 100 = 0 then [DbWrite bt] else []"
  let ?s3 = "if h mod 100 = 0 then st_write bt (parse_block cl cd b (rpc_call (RpcGetBlock bh) s))
             else parse_block cl cd b (rpc_call (RpcGetBlock bh) s)"
  from step.IH obtain es' where
    e': "st_events (snd r) = st_events ?s3 @ es'" and p': "pipeline_run (Walking (h + 1)) es' Draining"
    by blast
  have s3: "st_events ?s3 = st_events s @ [RpcGetBlock bh] @ (DbPut k v # es @ ?fl)"
    by (simp add: parse_block_effects sync_simps be(1))
  have "pipeline_run (Walking h) ([RpcGetBlock bh] @ (DbPut k v # es @ ?fl) @ es') Draining"
    by (rule pipeline_run.step [OF pipeline_step.fetch],
        rule pipeline_run.step [OF pipeline_step.advance [OF be(2)] p'])
  with e' s3 show ?case by auto
qed

lemma pipeline_run_start:
  "pipeline_step ResolvingWatermark fs q \<Longrightarrow> pipeline_run q gs r \<Longrightarrow>
     pipeline_run Idle ([RpcGetBlockCount] @ [] @ fs @ gs) r"
  by (intro pipeline_run.step [OF pipeline_step.query_tip] pipeline_run.step [OF pipeline_step.tip_known]
      pipeline_run.step)

lemma fetch_new_blocks_pipeline:
  assumes "fetch_new_blocks cl cd s = Some s'"
  shows "\<exists>es. st_events s' = st_events s @ es \<and>
           pipeline_run Idle es
             (if isl (getblockcount cl) \<or> isl (getblockhash cl (get_db_height cd (st_db s) + 1))
              then Failed else Done)"
proof (cases "getblockcount cl")
  case (Inl err)
  have "pipeline_run Idle ([RpcGetBlockCount] @ []) Failed"
    by (rule pipeline_run.step [OF pipeline_step.query_tip]) (intro pipeline_run_step1 pipeline_step.no_tip)
  with assms Inl show ?thesis by (auto simp: fetch_new_blocks_def sync_simps)
next
  case (Inr best)
  let ?cur = "get_db_height cd (st_db s) + 1"
  let ?s1 = "rpc_call (RpcGetBlockHash ?cur) (rpc_call RpcGetBlockCount s)"
  have cur: "0 \<le> ?cur" using get_db_height_sentinel [of cd "st_db s"] by simp
  show ?thesis
  proof (cases "getblockhash cl ?cur")
    case (Inl err)
    from assms \<open>getblockcount cl = Inr best\<close> Inl have "s' = ?s1"
      by (simp add: fetch_new_blocks_def Let_def sync_simps)
    moreover have "pipeline_run Idle ([RpcGetBlockCount] @ [] @ [RpcGetBlockHash ?cur] @ []) Failed"
      by (rule pipeline_run_start [OF pipeline_step.no_start [OF cur] pipeline_run.refl])
    ultimately show ?thesis using Inr Inl by (auto simp: sync_simps)
  next
    case (Inr bh)
    with assms \<open>getblockcount cl = Inr best\<close>
    have "map_option (\<lambda>(bt, s2). st_write bt s2) (walk cl cd ?cur bh [] ?s1) = Some s'"
      by (simp add: fetch_new_blocks_def Let_def sync_simps)
    then obtain bt s2 where
      w: "walk cl cd ?cur bh [] ?s1 = Some (bt, s2)" and s': "s' = st_write bt s2" by auto
    from walk_pipeline [OF w] obtain es where
      e: "st_events s2 = st_events ?s1 @ es" and p: "pipeline_run (Walking ?cur) es Draining" by auto
    have "pipeline_run (Walking ?cur) (es @ [DbWrite bt]) Done"
      using p by (rule pipeline_run_trans) (intro pipeline_run_step1 pipeline_step.drain)
    then have "pipeline_run Idle ([RpcGetBlockCount] @ [] @ [RpcGetBlockHash ?cur] @ es @ [DbWrite bt]) Done"
      by (rule pipeline_run_start [OF pipeline_step.start [OF cur]])
    with e s' Inr \<open>getblockcount cl = Inr best\<close> show ?thesis by (auto simp: sync_simps)
  qed
qed

lemma fetches_within_append:
  "fetches_within c (es @ fs) \<longleftrightarrow> fetches_within c es \<and> fetches_within (unflushed_fetches c es) fs"
  by (induction c es rule: fetches_within.induct) simp_all

lemma unflushed_fetches_append:
  "unflushed_fetches c (es @ fs) = unflushed_fetches (unflushed_fetches c es) fs"
  by (induction c es rule: unflushed_fetches.induct) simp_all

lemma enrich_no_fetch:
  "list_all enrich_event es \<Longrightarrow> fetches_within c es \<and> unflushed_fetches c es = c"
  by (induction c es rule: fetches_within.induct) simp_all

lemma mod_100_pred: "(h::int) mod 100 \<noteq> 0 \<Longrightarrow> (h - 1) mod 100 + 1 = h mod 100"
proof -
  assume nz: "h mod 100 \<noteq> 0"
  have "0 \<le> h mod 100" "h mod 100 < 100" by simp_all
  with nz have r: "0 \<le> h mod 100 - 1" "h mod 100 - 1 < 100" by simp_all
  have "(h - 1) mod 100 = (h mod 100 - 1) mod 100" by (simp add: mod_diff_left_eq)
  also have "\<dots> = h mod 100 - 1" using r by (rule mod_pos_pos_trivial)
  finally show ?thesis by simp
qed

lemma pipeline_step_window:
  "pipeline_step p es q \<Longrightarrow> window_ok p c \<Longrightarrow>
     fetches_within c es \<and> window_ok q (unflushed_fetches c es)"
proof (induction rule: pipeline_step.induct)
  case (fetch h bh)
  have "int c \<le> (h - 1) mod 100" "(h - 1) mod 100 < 100" using fetch by simp_all
  then have "c < 100" by linarith
  with fetch show ?case by simp
next
  case (not_found h bh)
  have "int c \<le> (h - 1) mod 100" "(h - 1) mod 100 < 100" using not_found by simp_all
  then have "c < 100" by linarith
  then show ?case by simp
next
  case (advance es h k v b)
  note e = enrich_no_fetch [OF advance.hyps, of c]
  show ?case
  proof (cases "h mod 100 = 0")
    case True
    with e show ?thesis by (simp add: fetches_within_append unflushed_fetches_append)
  next
    case False
    have "int c \<le> (h - 1) mod 100 + 1" using advance.prems by simp
    with mod_100_pred [OF False] have "int c \<le> (h + 1 - 1) mod 100" by simp
    with e False show ?thesis by (simp add: fetches_within_append unflushed_fetches_append)
  qed
next
  case (at_tip es h k v)
  have "int c \<le> (h - 1) mod 100 + 1" "(h - 1) mod 100 < 100" using at_tip.prems by simp_all
  then have "c \<le> 100" by linarith
  with enrich_no_fetch [OF at_tip.hyps, of c] show ?case by simp
next
  case (start h)
  from start.prems have "c = 0" by simp
  then show ?case by simp
next
  case query_tip
  then show ?case by simp
next
  case no_tip
  then show ?case by simp
next
  case tip_known
  then show ?case by simp
next
  case (no_start h)
  then show ?case by simp
next
  case (drain b)
  then show ?case by simp
qed

lemma pipeline_run_window:
  "pipeline_run p es q \<Longrightarrow> window_ok p c \<Longrightarrow>
     fetches_within c es \<and> window_ok q (unflushed_fetches c es)"
proof (induction arbitrary: c rule: pipeline_run.induct)
  case (refl p)
  then show ?case by simp
next
  case (step p es q fs r)
  from pipeline_step_window [OF step.hyps(1) step.prems] step.IH show ?case
    by (simp add: fetches_within_append unflushed_fetches_append)
qed

subsection \<open>The code against the machine\<close>

text \<open>
  C12. Refinement of the spec's pipeline state machine (section 5): the effects of
  every run of \<open>fetch_new_blocks\<close> that returns, against any node and codec, are the
  labels of one path of \<open>pipeline_step\<close> from \<open>Idle\<close>. The path ends in \<open>Failed\<close>
  exactly when the block count or the hash at \<open>watermark + 1\<close> is not served (the two
  early returns, lines 15--18 and 39--42), and in \<open>Done\<close> after the final flush
  otherwise.
\<close>

theorem fetch_new_blocks_refines_pipeline:
  assumes "fetch_new_blocks cl cd s = Some s'"
  shows "\<exists>es. st_events s' = st_events s @ es \<and>
           pipeline_run Idle es
             (if isl (getblockcount cl) \<or> isl (getblockhash cl (get_db_height cd (st_db s) + 1))
              then Failed else Done)"
  using assms by (rule fetch_new_blocks_pipeline)

text \<open>
  C35. Flush cadence (spec section 5, step 5): in every run that returns, no more than
  100 blocks are fetched between two writes of the batch, and every fetched block is
  followed by a write before the run ends. The code keeps the cadence; what it writes
  is the empty batch (theory \<open>Walker\<close>).
\<close>

theorem fetch_new_blocks_flush_cadence:
  assumes "fetch_new_blocks cl cd s = Some s'"
  shows "\<exists>es. st_events s' = st_events s @ es \<and> fetches_within 0 es \<and> unflushed_fetches 0 es = 0"
proof -
  from fetch_new_blocks_pipeline [OF assms] obtain es q where
    e: "st_events s' = st_events s @ es" and p: "pipeline_run Idle es q" and q: "q = Failed \<or> q = Done"
    by auto
  from pipeline_run_window [OF p, of 0] q show ?thesis using e by auto
qed

end
