(* ===== verification/Growth.thy ===== *)
theory Growth
  imports Chain
begin

text \<open>
  Incremental synchronisation. The spec's deployment runs the program again whenever
  the node has new blocks: between two runs the canonical chain grows at its tip. The
  node of the second run serves \<open>bs'\<close>, an extension of the first run's chain
  \<open>bs\<close> (\<open>chain_grows\<close>): the same blocks at the old heights, except that the old tip
  now names its successor. From the store a complete first run left
  (\<open>synced_db \<dots> bs (length bs)\<close>), the second run starts right after the old tip,
  fetches exactly the new blocks once each, and leaves every block of \<open>bs'\<close> stored,
  with the watermark at the new tip. The block records of the first run are never
  fetched again, so the old tip's record keeps the empty \<open>nextblockhash\<close> it had
  when it was fetched, although the block now has a successor.
\<close>

definition forget_next :: "full_block \<Rightarrow> full_block" where
  "forget_next b = b\<lparr>nextblockhash := None\<rparr>"

definition chain_grows :: "full_block list \<Rightarrow> full_block list \<Rightarrow> bool" where
  "chain_grows bs bs' \<longleftrightarrow>
     canonical_chain bs \<and> canonical_chain bs' \<and> length bs \<le> length bs' \<and>
     map forget_next bs = map forget_next (take (length bs) bs')"

text \<open>The store after the second run: the first run's entries, then the new blocks' entries.\<close>

definition grown_store ::
  "'d client \<Rightarrow> ('v, 'd) codec \<Rightarrow> full_block list \<Rightarrow> full_block list \<Rightarrow> 'v db" where
  "grown_store cl cd bs bs' = db_write (concat (map (block_entries cl cd) (bs @ drop (length bs) bs'))) []"

lemma grows_hashes:
  assumes "chain_grows bs bs'"
  shows "map hash bs = map hash (take (length bs) bs')"
proof -
  from assms have "map hash (map forget_next bs) = map hash (map forget_next (take (length bs) bs'))"
    by (simp add: chain_grows_def)
  then show ?thesis by (simp add: forget_next_def comp_def)
qed

lemma grows_hash:
  assumes "chain_grows bs bs'" and "i < length bs"
  shows "hash (bs' ! i) = hash (bs ! i)"
proof -
  from assms(1) have "length bs \<le> length bs'" by (simp add: chain_grows_def)
  with assms(2) have "map hash bs ! i = map hash (take (length bs) bs') ! i"
    by (simp only: grows_hashes [OF assms(1)])
  with assms(2) \<open>length bs \<le> length bs'\<close> show ?thesis by simp
qed

lemma grows_distinct:
  assumes "chain_grows bs bs'"
  shows "distinct (map hash (bs @ drop (length bs) bs'))"
proof -
  have "map hash (bs @ drop (length bs) bs') = map hash (take (length bs) bs') @ map hash (drop (length bs) bs')"
    using grows_hashes [OF assms] by simp
  also have "\<dots> = map hash bs'" by (simp flip: map_append)
  finally have "map hash (bs @ drop (length bs) bs') = map hash bs'" .
  with assms show ?thesis by (simp add: chain_grows_def canonical_chain_def)
qed

lemma grows_heights:
  assumes "chain_grows bs bs'" and "b \<in> set (bs @ drop (length bs) bs')"
  shows "height b < int (length bs')"
proof -
  from assms(1) have c: "canonical_chain bs" "canonical_chain bs'" "length bs \<le> length bs'"
    by (simp_all add: chain_grows_def)
  from assms(2) consider (old) "b \<in> set bs" | (new) "b \<in> set (drop (length bs) bs')" by auto
  then show ?thesis
  proof cases
    case old
    then obtain j where "j < length bs" "b = bs ! j" by (auto simp: in_set_conv_nth)
    with canonical_nth [OF c(1)] c(3) show ?thesis by simp
  next
    case new
    from set_drop_nth [OF this] obtain j where "j < length bs'" "b = bs' ! j" by blast
    with canonical_nth [OF c(2)] show ?thesis by simp
  qed
qed

lemma block_entries_chain_client:
  "block_entries (chain_client bs txs) cd = block_entries (chain_client bs' txs) cd"
proof -
  have eq: "tx_entries (chain_client bs txs) cd = tx_entries (chain_client bs' txs) cd"
    by (simp add: fun_eq_iff tx_entries_def chain_client_def)
  show ?thesis by (rule ext) (simp add: block_entries_def eq)
qed

lemma grown_store_block:
  assumes "chain_grows bs bs'" and "i < length bs'"
  shows "(format_hashes (hash (bs' ! i)), serialize_block cd (if i < length bs then bs ! i else bs' ! i))
           \<in> set (grown_store cl cd bs bs')"
proof -
  let ?m = "bs @ drop (length bs) bs'"
  from assms(1) have le: "length bs \<le> length bs'" by (simp add: chain_grows_def)
  have b: "(if i < length bs then bs ! i else bs' ! i) \<in> set ?m"
    using assms(2) le by (auto simp: in_set_conv_nth intro: exI [of _ "i - length bs"])
  have h: "hash (if i < length bs then bs ! i else bs' ! i) = hash (bs' ! i)"
    using grows_hash [OF assms(1)] by simp
  have "(format_hashes (hash (if i < length bs then bs ! i else bs' ! i)),
      serialize_block cd (if i < length bs then bs ! i else bs' ! i)) \<in>
      set (concat (map (block_entries cl cd) ?m))"
    using b by (force simp: block_entries_def)
  from chain_write_entry [OF grows_distinct [OF assms(1)] this] h show ?thesis
    by (simp add: grown_store_def)
qed

lemma grown_store_watermark:
  assumes "chain_grows bs bs'" and "codec_ok cd"
  shows "get_db_height cd (grown_store cl cd bs bs') = int (length bs') - 1"
proof (rule get_db_height_eqI)
  let ?m = "bs @ drop (length bs) bs'"
  have sub: "set (grown_store cl cd bs bs') \<subseteq> set (concat (map (block_entries cl cd) (take (length ?m) ?m)))"
    using set_db_write [of "concat (map (block_entries cl cd) ?m)" "[]"] by (simp add: grown_store_def)
  fix b assume "b \<in> set (decoded_blocks cd (grown_store cl cd bs bs'))"
  from prefix_store_decoded [OF assms(2) sub this] have "b \<in> set ?m" by simp
  from grows_heights [OF assms(1) this] show "height b \<le> int (length bs') - 1" by simp
next
  from assms(1) have c: "canonical_chain bs'" by (simp add: chain_grows_def)
  show "int (length bs') - 1 \<in> insert (-1) (height ` set (decoded_blocks cd (grown_store cl cd bs bs')))"
  proof (cases "length bs'")
    case (Suc j)
    then have j: "j < length bs'" by simp
    let ?b = "if j < length bs then bs ! j else bs' ! j"
    from grown_store_block [OF assms(1) j, of cd cl] assms(2)
    have "?b \<in> set (decoded_blocks cd (grown_store cl cd bs bs'))"
      by (force simp: set_decoded_blocks codec_ok_def)
    moreover have "height ?b = int j"
    proof (cases "j < length bs")
      case True
      from assms(1) have "canonical_chain bs" by (simp add: chain_grows_def)
      from canonical_nth [OF this True] True show ?thesis by simp
    qed (simp add: canonical_nth [OF c j])
    ultimately show ?thesis using Suc by force
  qed simp
qed simp

lemma fetch_new_blocks_grown:
  assumes "chain_grows bs bs'" and "codec_ok cd"
    and "st_db s = synced_db (chain_client bs txs) cd bs (length bs)"
  shows "\<exists>s'. fetch_new_blocks (chain_client bs' txs) cd s = Some s' \<and>
           rpc_calls (st_events s') = rpc_calls (st_events s) @
             RpcGetBlockCount # RpcGetBlockHash (int (length bs)) # sync_rpcs (drop (length bs) bs') \<and>
           st_db s' = grown_store (chain_client bs' txs) cd bs bs'"
proof -
  from assms(1) have c: "canonical_chain bs" "canonical_chain bs'" "length bs \<le> length bs'"
    by (simp_all add: chain_grows_def)
  have w: "get_db_height cd (st_db s) = int (length bs) - 1"
    using get_db_height_synced [OF c(1) assms(2) order.refl] assms(3) by simp
  from fetch_new_blocks_from_watermark [OF c(2,3) w, of txs] obtain s' where
    f: "fetch_new_blocks (chain_client bs' txs) cd s = Some s'" and
    d: "st_db s' = db_write (concat (map (block_entries (chain_client bs' txs) cd) (drop (length bs) bs')))
          (st_db s)" and
    r: "rpc_calls (st_events s') = rpc_calls (st_events s) @
          RpcGetBlockCount # RpcGetBlockHash (int (length bs)) # sync_rpcs (drop (length bs) bs')"
    by blast
  have "st_db s' = grown_store (chain_client bs' txs) cd bs bs'"
    using d assms(3) block_entries_chain_client [of bs txs cd bs']
    by (simp add: grown_store_def synced_db_def db_write_append)
  with f r show ?thesis by blast
qed

text \<open>
  C11. Incremental synchronisation (spec sections 1 and 8, for a chain that grows
  between runs): from the store a complete run over \<open>bs\<close> left, a run against the
  node serving the grown chain \<open>bs'\<close> returns; it asks for the hash at the old tip's
  height \<open>+ 1\<close> and fetches each new block once, in height order, with its
  transactions; it leaves the watermark at the new tip and a record of every block of
  \<open>bs'\<close>, the old ones as the first run fetched them.
\<close>

theorem incremental_sync:
  assumes "chain_grows bs bs'" and "codec_ok cd"
    and "st_db s = synced_db (chain_client bs txs) cd bs (length bs)"
  shows "\<exists>s'. fetch_new_blocks (chain_client bs' txs) cd s = Some s' \<and>
           rpc_calls (st_events s') = rpc_calls (st_events s) @
             RpcGetBlockCount # RpcGetBlockHash (int (length bs)) # sync_rpcs (drop (length bs) bs') \<and>
           get_db_height cd (st_db s') = int (length bs') - 1 \<and>
           (\<forall>i < length bs'. (format_hashes (hash (bs' ! i)),
              serialize_block cd (if i < length bs then bs ! i else bs' ! i)) \<in> set (st_db s'))"
proof -
  from fetch_new_blocks_grown [OF assms] obtain s' where
    f: "fetch_new_blocks (chain_client bs' txs) cd s = Some s'" and
    r: "rpc_calls (st_events s') = rpc_calls (st_events s) @
          RpcGetBlockCount # RpcGetBlockHash (int (length bs)) # sync_rpcs (drop (length bs) bs')" and
    d: "st_db s' = grown_store (chain_client bs' txs) cd bs bs'" by blast
  have "get_db_height cd (st_db s') = int (length bs') - 1"
    using grown_store_watermark [OF assms(1,2)] d by simp
  moreover have "\<forall>i < length bs'. (format_hashes (hash (bs' ! i)),
      serialize_block cd (if i < length bs then bs ! i else bs' ! i)) \<in> set (st_db s')"
  proof (intro allI impI)
    fix i assume "i < length bs'"
    show "(format_hashes (hash (bs' ! i)),
        serialize_block cd (if i < length bs then bs ! i else bs' ! i)) \<in> set (st_db s')"
      unfolding d by (rule grown_store_block [OF assms(1) \<open>i < length bs'\<close>])
  qed
  ultimately show ?thesis using f r by blast
qed

text \<open>
  C36. Stale successor links (the spec's \<open>successorHash\<close> is "absent exactly when this
  is the current chain tip at fetch time"): after the chain has grown past the old tip,
  the run stores the new blocks but never fetches the old tip again, so its stored
  record still decodes to a block without \<open>nextblockhash\<close>, while the node's block at
  that height now names its successor. Following stored successor links from the
  first block stops at the old tip.
\<close>

theorem incremental_sync_stale_tip:
  assumes "chain_grows bs bs'" and "codec_ok cd"
    and "st_db s = synced_db (chain_client bs txs) cd bs (length bs)"
    and "0 < length bs" and "length bs < length bs'"
  shows "\<exists>s' v b. fetch_new_blocks (chain_client bs' txs) cd s = Some s' \<and>
           map_of (st_db s') (format_hashes (hash (bs' ! (length bs - 1)))) = Some v \<and>
           deserialize_block cd v = Inr b \<and> nextblockhash b = None \<and>
           nextblockhash (bs' ! (length bs - 1)) = Some (hash (bs' ! length bs))"
proof -
  let ?j = "length bs - 1"
  let ?st = "grown_store (chain_client bs' txs) cd bs bs'"
  from assms(1) have c: "canonical_chain bs" "canonical_chain bs'" by (simp_all add: chain_grows_def)
  from fetch_new_blocks_grown [OF assms(1-3)] obtain s' where
    f: "fetch_new_blocks (chain_client bs' txs) cd s = Some s'" and d: "st_db s' = ?st" by blast
  have j: "?j < length bs" "?j < length bs'" "Suc ?j = length bs" using assms(4,5) by simp_all
  from grown_store_block [OF assms(1) j(2), of cd "chain_client bs' txs"] j(1)
  have mem: "(format_hashes (hash (bs' ! ?j)), serialize_block cd (bs ! ?j)) \<in> set ?st" by simp
  have "db_wf ?st" unfolding grown_store_def by (rule db_write_wf) (simp add: db_wf_def)
  with mem d have "map_of (st_db s') (format_hashes (hash (bs' ! ?j))) = Some (serialize_block cd (bs ! ?j))"
    by (simp add: db_wf_distinct)
  moreover have "deserialize_block cd (serialize_block cd (bs ! ?j)) = Inr (bs ! ?j)"
    using assms(2) by (simp add: codec_ok_def)
  moreover have "nextblockhash (bs ! ?j) = None" using canonical_nth [OF c(1) j(1)] j(3) by simp
  moreover have "nextblockhash (bs' ! ?j) = Some (hash (bs' ! length bs))"
    using canonical_nth [OF c(2) j(2)] j(3) assms(5) by simp
  ultimately show ?thesis using f by blast
qed

end
