(* ===== verification/Loss.thy ===== *)
theory Loss
  imports Recovery
begin

text \<open>
  How much a crash loses. \<open>parse_block\<close> puts a block's record before its
  transactions (line 97 against lines 135 and 144), and the watermark counts block
  records only, so a process stopped inside a block leaves that block counted but
  incomplete, and no later run fetches it again. A block is \<open>lost\<close> in a store when
  its record is there but some entry of the block (a fetched transaction) is not
  (\<open>lost_blocks\<close>). \<open>crash_history c d\<close> is \<open>reachable_store\<close> with the number \<open>c\<close>
  of processes that stopped before completing their run (\<open>crash_history_reachable\<close>:
  it describes the same stores). The theorem of this theory bounds the loss: every
  interrupted process loses the transactions of at most one block, and a history
  without interruptions loses none.
\<close>

definition block_complete :: "'d client \<Rightarrow> ('v, 'd) codec \<Rightarrow> 'v db \<Rightarrow> full_block \<Rightarrow> bool" where
  "block_complete cl cd d b \<longleftrightarrow> list_all (\<lambda>e. e \<in> set d) (block_entries cl cd b)"

definition lost_blocks :: "'d client \<Rightarrow> ('v, 'd) codec \<Rightarrow> full_block list \<Rightarrow> 'v db \<Rightarrow> nat list" where
  "lost_blocks cl cd bs d =
     filter (\<lambda>i. (format_hashes (hash (bs ! i)), serialize_block cd (bs ! i)) \<in> set d \<and>
                 \<not> block_complete cl cd d (bs ! i))
       [0..<length bs]"

inductive crash_history :: "'d client \<Rightarrow> ('v, 'd) codec \<Rightarrow> nat \<Rightarrow> 'v db \<Rightarrow> bool"
  for cl cd
where
  fresh: "crash_history cl cd 0 []"
| complete: "crash_history cl cd c d \<Longrightarrow> main_prog (Inr d) cl cd = Inr (Some s) \<Longrightarrow>
    crash_history cl cd c (st_db s)"
| crash: "crash_history cl cd c d \<Longrightarrow> main_prog (Inr d) cl cd = Inr (Some s) \<Longrightarrow>
    crash_history cl cd (Suc c) (replay_store (take n (st_events s)) d)"

lemma crash_history_reachable:
  "reachable_store cl cd d \<longleftrightarrow> (\<exists>c. crash_history cl cd c d)"
proof
  assume "reachable_store cl cd d"
  then show "\<exists>c. crash_history cl cd c d"
    by induction (auto intro: crash_history.intros)
next
  assume "\<exists>c. crash_history cl cd c d"
  then obtain c where "crash_history cl cd c d" by blast
  then show "reachable_store cl cd d"
  proof induction
    case fresh
    then show ?case by (rule reachable_store.fresh)
  next
    case (complete c d s)
    from complete.hyps(2) have "fetch_new_blocks cl cd \<lparr>st_db = d, st_events = []\<rparr> = Some s"
      by (simp add: main_prog_opened)
    from fetch_new_blocks_effects [OF this] have "st_db s = replay_store (st_events s) d" by auto
    with reachable_store.restart [OF complete.IH complete.hyps(2), of "length (st_events s)"]
    show ?case by simp
  next
    case (crash c d s n)
    then show ?case by (intro reachable_store.restart)
  qed
qed

lemma distinct_lost_blocks: "distinct (lost_blocks cl cd bs d)"
  by (simp add: lost_blocks_def)

text \<open>A block record of height at least \<open>k\<close> is no entry of the first \<open>k\<close> blocks.\<close>

lemma block_record_not_in_take:
  assumes "canonical_chain bs" and "k \<le> i" and "i < length bs"
  shows "(format_hashes (hash (bs ! i)), v) \<notin> set (concat (map (block_entries cl cd) (take k bs)))"
proof
  assume "(format_hashes (hash (bs ! i)), v) \<in> set (concat (map (block_entries cl cd) (take k bs)))"
  then obtain b where b: "b \<in> set (take k bs)" "(format_hashes (hash (bs ! i)), v) \<in> set (block_entries cl cd b)"
    by auto
  from b(2) have h: "hash b = hash (bs ! i)" by (auto simp: set_block_entries format_hashes_inj)
  from set_take_nth [OF b(1)] obtain j where j: "j < k" "b = bs ! j" by blast
  from assms(2,3) have "bs ! i \<in> set (drop k bs)" by (auto simp: in_set_conv_nth intro: exI [of _ "i - k"])
  from canonical_hash_drop [OF assms(1) j(1) this] h j(2) show False by simp
qed

text \<open>
  Writing the puts of blocks \<open>m\<close> to \<open>k - 1\<close> whole, then part of block \<open>k\<close>, on a store
  recoverable at \<open>m\<close> can lose block \<open>k\<close> and no other block that was not lost before.
\<close>

lemma write_blocks_lost:
  assumes canon: "canonical_chain bs" and rec: "recoverable_at cl cd bs d m"
    and k: "m \<le> k" "k \<le> length bs"
    and Q: "set Q \<subseteq> set (block_entries cl cd (bs ! k))" "k = length bs \<Longrightarrow> Q = []"
  shows "set (lost_blocks cl cd bs (db_write (concat (map (\<lambda>i. (format_hashes (hash (bs ! i)),
             serialize_block cd (bs ! i)) # tx_puts cl cd (bs ! i)) [m..<k]) @ Q) d))
           \<subseteq> set (lost_blocks cl cd bs d) \<union> {k}"
proof
  let ?g = "\<lambda>i. (format_hashes (hash (bs ! i)), serialize_block cd (bs ! i)) # tx_puts cl cd (bs ! i)"
  let ?P = "concat (map ?g [m..<k]) @ Q"
  let ?E = "\<lambda>n. set (concat (map (block_entries cl cd) (take n bs)))"
  from rec have wf: "db_wf d" and dm: "set d \<subseteq> ?E m"
    and recs: "\<forall>i < m. (format_hashes (hash (bs ! i)), serialize_block cd (bs ! i)) \<in> set d"
    by (simp_all add: recoverable_at_def)
  have gi: "set (?g i) \<subseteq> set ?P" if "m \<le> i" "i < k" for i
    using that by auto
  have PE: "set ?P \<subseteq> ?E (Suc k)"
  proof
    fix e assume "e \<in> set ?P"
    then consider (whole) i where "i \<in> set [m..<k]" "e \<in> set (?g i)" | (part) "e \<in> set Q"
      by (auto dest: in_set_concat_map)
    then show "e \<in> ?E (Suc k)"
    proof cases
      case whole
      with k have "bs ! i \<in> set (take (Suc k) bs)" by (intro nth_in_take) auto
      with whole(2) show ?thesis unfolding set_block_puts by auto
    next
      case part
      have "k \<noteq> length bs" using part Q(2) by auto
      with k(2) have "k < length bs" by simp
      then have "bs ! k \<in> set (take (Suc k) bs)" by (intro nth_in_take) auto
      with part Q(1) show ?thesis by auto
    qed
  qed
  have mk: "?E m \<subseteq> ?E (Suc k)" using set_take_subset_set_take [of m "Suc k" bs] k(1) by auto
  have all: "set d \<union> set ?P \<subseteq> set (concat (map (block_entries cl cd) bs))"
    using dm mk PE entries_take_subset [of cl cd "Suc k" bs] by blast
  have keep: "e \<in> set (db_write ?P d)" if "e \<in> set d \<union> set ?P" for e
    using chain_prefix_write_mem [OF canon wf all that] .
  have sub: "set (db_write ?P d) \<subseteq> ?E (Suc k)" using set_db_write [of ?P d] dm mk PE by blast
  fix i assume "i \<in> set (lost_blocks cl cd bs (db_write ?P d))"
  then have i: "i < length bs"
    and r: "(format_hashes (hash (bs ! i)), serialize_block cd (bs ! i)) \<in> set (db_write ?P d)"
    and nc: "\<not> block_complete cl cd (db_write ?P d) (bs ! i)"
    by (simp_all add: lost_blocks_def)
  show "i \<in> set (lost_blocks cl cd bs d) \<union> {k}"
  proof (cases "i < m")
    case True
    have "\<not> block_complete cl cd d (bs ! i)"
      using nc keep by (auto simp: block_complete_def list_all_iff)
    with True recs i show ?thesis by (simp add: lost_blocks_def)
  next
    case False
    consider "i < k" | "i = k" | "Suc k \<le> i" by linarith
    then show ?thesis
    proof cases
      case 1
      from False 1 have "set (?g i) \<subseteq> set ?P" by (intro gi) simp_all
      then have "set (block_entries cl cd (bs ! i)) \<subseteq> set ?P" by (simp only: set_block_puts)
      then have "\<forall>e \<in> set (block_entries cl cd (bs ! i)). e \<in> set (db_write ?P d)"
        using keep by blast
      then have "block_complete cl cd (db_write ?P d) (bs ! i)"
        by (simp add: block_complete_def list_all_iff)
      with nc show ?thesis by simp
    next
      case 3
      from r sub block_record_not_in_take [OF canon 3 i, where v = "serialize_block cd (bs ! i)" and cl = cl and cd = cd]
      show ?thesis by blast
    qed simp
  qed
qed

text \<open>
  One process on a recoverable store: stopped anywhere, it loses at most one block not
  lost before; run to completion, it loses none.
\<close>

lemma restart_lost:
  assumes canon: "canonical_chain bs" and ok: "codec_ok cd"
    and rec: "recoverable_at (chain_client bs txs) cd bs d m"
    and run: "main_prog (Inr d) (chain_client bs txs) cd = Inr (Some s)"
  shows "\<exists>k. set (lost_blocks (chain_client bs txs) cd bs (replay_store (take n (st_events s)) d))
               \<subseteq> set (lost_blocks (chain_client bs txs) cd bs d) \<union> {k}"
    and "set (lost_blocks (chain_client bs txs) cd bs (st_db s)) \<subseteq> set (lost_blocks (chain_client bs txs) cd bs d)"
proof -
  let ?cl = "chain_client bs txs"
  let ?g = "\<lambda>i. (format_hashes (hash (bs ! i)), serialize_block cd (bs ! i)) # tx_puts ?cl cd (bs ! i)"
  let ?xs = "[m..<length bs]"
  from rec have m: "m \<le> length bs" by (simp add: recoverable_at_def)
  note ev = main_prog_run_events [OF canon ok rec run]
  from ev obtain n' where
    d': "replay_store (take n (st_events s)) d = db_write (take n' (concat (map ?g ?xs))) d"
    using run_prefix_puts [of n ?cl cd bs m d] by auto
  from take_concat_map_split [where n = n' and f = ?g and xs = ?xs] obtain j r where j: "j \<le> length bs - m"
    and split: "take n' (concat (map ?g ?xs)) = concat (map ?g (take j ?xs)) @ take r (concat (map ?g (take 1 (drop j ?xs))))"
    by auto
  let ?Q = "take r (concat (map ?g (take 1 (drop j ?xs))))"
  have mj: "m + j \<le> length bs" using j m by simp
  have tk: "take j ?xs = [m..<m + j]" using mj by (rule take_upt)
  have dr: "drop j ?xs = [m + j..<length bs]" by simp
  have Q: "set ?Q \<subseteq> set (block_entries ?cl cd (bs ! (m + j)))" "m + j = length bs \<Longrightarrow> ?Q = []"
  proof -
    show "m + j = length bs \<Longrightarrow> ?Q = []" by (simp only: dr) simp
    show "set ?Q \<subseteq> set (block_entries ?cl cd (bs ! (m + j)))"
    proof (cases "m + j < length bs")
      case True
      then have "take 1 (drop j ?xs) = [m + j]" by (simp only: dr) (simp add: upt_conv_Cons)
      then have q: "?Q = take r (?g (m + j))" by simp
      have "set (take r (?g (m + j))) \<subseteq> set (?g (m + j))" by (rule set_take_subset)
      with q have "set ?Q \<subseteq> set (?g (m + j))" by (simp only:)
      then show ?thesis by (simp only: set_block_puts)
    qed (simp add: dr)
  qed
  from write_blocks_lost [OF canon rec _ mj Q] d' split tk
  show "\<exists>k. set (lost_blocks ?cl cd bs (replay_store (take n (st_events s)) d))
      \<subseteq> set (lost_blocks ?cl cd bs d) \<union> {k}" by auto
  have sd: "st_db s = db_write (concat (map ?g ?xs) @ []) d"
    using ev by (simp add: replay_store_puts run_events_puts)
  have "set (lost_blocks ?cl cd bs (st_db s)) \<subseteq> set (lost_blocks ?cl cd bs d) \<union> {length bs}"
    unfolding sd by (rule write_blocks_lost [OF canon rec m order.refl]) simp_all
  moreover have "length bs \<notin> set (lost_blocks ?cl cd bs (st_db s))" by (simp add: lost_blocks_def)
  ultimately show "set (lost_blocks ?cl cd bs (st_db s)) \<subseteq> set (lost_blocks ?cl cd bs d)" by blast
qed

lemma crash_history_lost:
  assumes "crash_history (chain_client bs txs) cd c d" and canon: "canonical_chain bs" and ok: "codec_ok cd"
  shows "\<exists>m. recoverable_at (chain_client bs txs) cd bs d m \<and>
           card (set (lost_blocks (chain_client bs txs) cd bs d)) \<le> c"
  using assms(1)
proof induction
  case fresh
  have "recoverable_at (chain_client bs txs) cd bs [] 0" by (simp add: recoverable_at_def db_wf_def)
  moreover have "lost_blocks (chain_client bs txs) cd bs [] = []" by (simp add: lost_blocks_def)
  ultimately show ?case by auto
next
  case (complete c d s)
  from complete.IH obtain m where rec: "recoverable_at (chain_client bs txs) cd bs d m"
    and c: "card (set (lost_blocks (chain_client bs txs) cd bs d)) \<le> c" by blast
  from main_prog_run_events [OF canon ok rec complete.hyps(2)]
  have "st_db s = replay_store (take (length (st_events s)) (st_events s)) d" by simp
  with restart_recoverable [OF canon ok rec complete.hyps(2), of "length (st_events s)"]
  obtain j where "recoverable_at (chain_client bs txs) cd bs (st_db s) j" by auto
  moreover have "card (set (lost_blocks (chain_client bs txs) cd bs (st_db s))) \<le> c"
    using card_mono [OF _ restart_lost(2) [OF canon ok rec complete.hyps(2)]] c by simp
  ultimately show ?case by blast
next
  case (crash c d s n)
  from crash.IH obtain m where rec: "recoverable_at (chain_client bs txs) cd bs d m"
    and c: "card (set (lost_blocks (chain_client bs txs) cd bs d)) \<le> c" by blast
  let ?d' = "replay_store (take n (st_events s)) d"
  from restart_recoverable [OF canon ok rec crash.hyps(2), of n]
  obtain j where rj: "recoverable_at (chain_client bs txs) cd bs ?d' j" by blast
  obtain k where k: "set (lost_blocks (chain_client bs txs) cd bs ?d')
      \<subseteq> set (lost_blocks (chain_client bs txs) cd bs d) \<union> {k}"
    using restart_lost(1) [OF canon ok rec crash.hyps(2), of n] by blast
  have "card (set (lost_blocks (chain_client bs txs) cd bs ?d')) \<le>
      card (set (lost_blocks (chain_client bs txs) cd bs d) \<union> {k})"
    by (rule card_mono [OF _ k]) simp
  also have "\<dots> \<le> card (set (lost_blocks (chain_client bs txs) cd bs d)) + card {k}" by (rule card_Un_le)
  finally have "card (set (lost_blocks (chain_client bs txs) cd bs ?d')) \<le> Suc c" using c by simp
  with rj show ?case by blast
qed

text \<open>
  C10. Bounded transaction loss under crashes (spec section 8 promises that an unclean
  termination loses at most one batch window of re-work; the code loses data instead):
  in every store a history of processes leaves, the blocks whose record is stored but
  some of whose fetched transactions are missing are at most as many as the
  processes that stopped before completing their run. Each interruption loses at most
  the one block it was enriching, and a history without interruptions loses nothing.
\<close>

theorem crash_history_lost_blocks:
  assumes "crash_history (chain_client bs txs) cd c d" and "canonical_chain bs" and "codec_ok cd"
  shows "length (lost_blocks (chain_client bs txs) cd bs d) \<le> c"
proof -
  from crash_history_lost [OF assms] obtain m where
    "card (set (lost_blocks (chain_client bs txs) cd bs d)) \<le> c" by blast
  with distinct_card [OF distinct_lost_blocks [of "chain_client bs txs" cd bs d]] show ?thesis by simp
qed

end
