(* ===== verification/Resume.thy ===== *)
theory Resume
  imports Loss
begin

text \<open>
  What a restarted process does to the progress already on disk (spec section 3, the
  \<open>SyncWatermark\<close> invariant, and section 8, "Monotonic watermark"): started on any
  store a history of processes can leave, the process only asks for blocks whose
  record is not stored, and wherever it stops the watermark it leaves is at least the
  one it found. Both follow from the invariant \<open>recoverable_at\<close> and the run's exact
  effects \<open>run_events\<close>. The last part is the other direction: a walk that starts
  inside the stored prefix puts again what is stored and ends in the same store as a
  walk from the watermark.
\<close>

lemma run_events_getblock:
  "RpcGetBlock x \<in> set (run_events cl cd bs m) \<Longrightarrow> \<exists>i. m \<le> i \<and> i < length bs \<and> x = hash (bs ! i)"
  by (auto simp: run_events_def canonical_trace_def block_trace_def block_events_def tx_events_def
      split: if_splits sum.splits)

text \<open>
  C13. No re-fetch under crashes (spec section 3: the walker "never re-fetches a height
  known to be persisted"): a process started on any reachable store requests with
  \<open>getblock\<close> only hashes under which the store holds no block record.
\<close>

theorem restart_never_refetches:
  assumes "reachable_store (chain_client bs txs) cd d" and canon: "canonical_chain bs" and ok: "codec_ok cd"
    and run: "main_prog (Inr d) (chain_client bs txs) cd = Inr (Some s)"
    and get: "RpcGetBlock bh \<in> set (st_events s)"
  shows "map_of d (format_hashes bh) = None"
proof (rule ccontr)
  assume "map_of d (format_hashes bh) \<noteq> None"
  then obtain v where v: "(format_hashes bh, v) \<in> set d" by (auto dest: map_of_SomeD)
  from reachable_recoverable_at [OF assms(1-3)] obtain m where
    rec: "recoverable_at (chain_client bs txs) cd bs d m" by blast
  from main_prog_run_events [OF canon ok rec run] get
  have "RpcGetBlock bh \<in> set (run_events (chain_client bs txs) cd bs m)" by simp
  from run_events_getblock [OF this] obtain i where i: "m \<le> i" "i < length bs" "bh = hash (bs ! i)"
    by blast
  from rec have "set d \<subseteq> set (concat (map (block_entries (chain_client bs txs) cd) (take m bs)))"
    by (simp add: recoverable_at_def)
  with v i block_record_not_in_take [OF canon i(1,2), where v = v and cl = "chain_client bs txs" and cd = cd]
  show False by blast
qed

text \<open>
  C14. Monotonic watermark under crashes (spec section 8): a process started on any
  reachable store, stopped after any number of its effects or run to the end, leaves
  a watermark at least the one it started from.
\<close>

theorem restart_watermark_monotone:
  assumes "reachable_store (chain_client bs txs) cd d" and canon: "canonical_chain bs" and ok: "codec_ok cd"
    and run: "main_prog (Inr d) (chain_client bs txs) cd = Inr (Some s)"
  shows "get_db_height cd d \<le> get_db_height cd (replay_store (take n (st_events s)) d)"
proof -
  from reachable_recoverable_at [OF assms(1-3)] obtain m where
    rec: "recoverable_at (chain_client bs txs) cd bs d m" by blast
  from restart_recoverable [OF canon ok rec run, of n] obtain j where
    "m \<le> j" "recoverable_at (chain_client bs txs) cd bs (replay_store (take n (st_events s)) d) j" by blast
  with recoverable_at_watermark [OF canon ok rec] recoverable_at_watermark [OF canon ok] show ?thesis
    by fastforce
qed

text \<open>A run that resumes below the stored prefix re-puts what is there and changes nothing of it.\<close>

lemma take_drop_cover: "j \<le> n \<Longrightarrow> set (take n bs) \<union> set (drop j bs) = set bs"
proof -
  assume "j \<le> n"
  then have "set (take j bs) \<subseteq> set (take n bs)" by (rule set_take_subset_set_take)
  moreover have "set bs = set (take j bs) \<union> set (drop j bs)"
    by (metis append_take_drop_id set_append)
  ultimately show ?thesis using set_take_subset [of n bs] set_drop_subset [of j bs] by blast
qed

text \<open>
  C37. Re-fetching stored blocks is harmless (the scan may return a watermark below the
  stored prefix, after an iterator error on line 167): on a store that has
  synchronised the first \<open>n\<close> blocks of a canonical chain, the loop of
  \<open>fetch_new_blocks\<close> started at any height \<open>j \<le> n\<close> returns and leaves exactly the
  store of a complete synchronisation, as if it had started at \<open>n\<close>.
\<close>

theorem walk_refetch_harmless:
  assumes canon: "canonical_chain bs" and jn: "j \<le> n" and j: "j < length bs"
    and st: "st_db s = synced_db (chain_client bs txs) cd bs n"
  shows "\<exists>bt s'. walk (chain_client bs txs) cd (int j) (hash (bs ! j)) [] s = Some (bt, s') \<and>
           st_db s' = synced_db (chain_client bs txs) cd bs (length bs)"
proof -
  let ?cl = "chain_client bs txs"
  let ?E = "\<lambda>xs. concat (map (block_entries ?cl cd) xs)"
  from chain_blocks_canonical [OF canon j, of txs]
  have "chain_blocks ?cl (length bs - j) (hash (bs ! j)) = Some (drop j bs)" by blast
  from walk_chain_blocks [OF this, of cd "int j" s] obtain s' where
    w: "walk ?cl cd (int j) (hash (bs ! j)) [] s = Some ([], s')" and
    d: "st_db s' = db_write (?E (drop j bs)) (st_db s)" by blast
  from canon have dist: "distinct (map hash bs)" by (simp add: canonical_chain_def)
  have sub: "set (?E (take n bs) @ ?E (drop j bs)) \<subseteq> set (?E bs)"
    using set_take_subset [of n bs] set_drop_subset [of j bs] by auto
  have eq: "set (?E (take n bs) @ ?E (drop j bs)) = set (?E bs)"
    using take_drop_cover [OF jn, of bs] by auto
  have "db_write (?E (take n bs) @ ?E (drop j bs)) [] = db_write (?E bs) []"
  proof (rule db_wf_eq)
    show "db_wf (db_write (?E (take n bs) @ ?E (drop j bs)) [])" "db_wf (db_write (?E bs) [])"
      by (simp_all add: db_write_wf [of "[]"] db_wf_def [of "[]"])
    show "set (db_write (?E (take n bs) @ ?E (drop j bs)) []) = set (db_write (?E bs) [])"
    proof -
      have e1: "set (db_write (?E (take n bs) @ ?E (drop j bs)) []) = set (?E (take n bs) @ ?E (drop j bs))"
        by (rule chain_write_set [OF dist sub])
      have e2: "set (db_write (?E bs) []) = set (?E bs)" by (rule chain_write_set [OF dist order.refl])
      show ?thesis by (simp only: e1 e2 eq)
    qed
  qed
  then have "st_db s' = synced_db ?cl cd bs (length bs)"
    using d st by (simp add: synced_db_def db_write_append)
  with w show ?thesis by blast
qed

end
