(* ===== verification/Faults.thy ===== *)
theory Faults
  imports Chain
begin

text \<open>
  A node that fails in the middle of the chain. The spec (section 7) makes a failing
  \<open>blockByHash\<close> end the walk normally, "not a crash": the loop of
  \<open>fetch_new_blocks\<close> breaks on a \<open>getblock\<close> error (lines 51--56) and the batch is
  written after the loop. \<open>getblock_fails_at cl h\<close> is the node \<open>cl\<close> except that
  \<open>getblock h\<close> fails. Against a canonical chain whose block \<open>j\<close> cannot be fetched, a
  run from a cleanly synchronised prefix stores exactly the blocks before \<open>j\<close> and
  returns; the store it leaves is again a clean prefix, so the next run against the
  healthy node completes the chain without a gap.
\<close>

definition getblock_fails_at :: "'d client \<Rightarrow> string \<Rightarrow> 'd client" where
  "getblock_fails_at cl h = cl\<lparr>getblock := (\<lambda>bh. if bh = h then Inl ConnectivityError else getblock cl bh)\<rparr>"

lemma canonical_hash_neq:
  assumes "canonical_chain bs" and "i < length bs" and "j < length bs" and "i \<noteq> j"
  shows "hash (bs ! i) \<noteq> hash (bs ! j)"
proof -
  from assms(1) have "distinct (map hash bs)" by (simp add: canonical_chain_def)
  with assms(2-4) show ?thesis by (simp add: distinct_conv_nth)
qed

lemma chain_blocks_fails_at:
  assumes canon: "canonical_chain bs" and "i \<le> j" and j: "j < length bs"
  shows "chain_blocks (getblock_fails_at (chain_client bs txs) (hash (bs ! j))) (Suc (j - i)) (hash (bs ! i)) =
           Some (take (j - i) (drop i bs))"
proof -
  let ?fl = "getblock_fails_at (chain_client bs txs) (hash (bs ! j))"
  have "m = j - i \<Longrightarrow> i \<le> j \<Longrightarrow>
      chain_blocks ?fl (Suc m) (hash (bs ! i)) = Some (take m (drop i bs))" for m
  proof (induction m arbitrary: i)
    case 0
    then show ?case by (simp add: getblock_fails_at_def)
  next
    case (Suc m)
    then have i: "i < j" "i < length bs" "Suc i < length bs" using j by simp_all
    have gb: "getblock ?fl (hash (bs ! i)) = Inr (bs ! i)"
      using canonical_hash_neq [OF canon i(2) j] i(1) canonical_getblock [OF canon i(2), of txs]
      by (simp add: getblock_fails_at_def)
    have nx: "nextblockhash (bs ! i) = Some (hash (bs ! Suc i))"
      using canonical_nth [OF canon i(2)] i(3) by simp
    from Suc.prems have "m = j - Suc i" "Suc i \<le> j" by simp_all
    note IH = Suc.IH [OF this]
    have dr: "drop i bs = bs ! i # drop (Suc i) bs"
      using i(2) by (rule Cons_nth_drop_Suc [symmetric])
    from gb nx IH dr show ?case by simp
  qed
  with assms(2) show ?thesis by blast
qed

lemma block_entries_fails_at:
  "block_entries (getblock_fails_at cl h) cd = block_entries cl cd"
proof -
  have eq: "tx_entries (getblock_fails_at cl h) cd = tx_entries cl cd"
    by (simp add: fun_eq_iff tx_entries_def getblock_fails_at_def)
  show ?thesis by (rule ext) (simp add: block_entries_def eq)
qed

lemma fetch_new_blocks_fails_at:
  assumes canon: "canonical_chain bs" and ok: "codec_ok cd" and "k \<le> j" and j: "j < length bs"
    and st: "st_db s = synced_db (chain_client bs txs) cd bs k"
  shows "\<exists>s'. fetch_new_blocks (getblock_fails_at (chain_client bs txs) (hash (bs ! j))) cd s = Some s' \<and>
           st_db s' = synced_db (chain_client bs txs) cd bs j"
proof -
  let ?cl = "chain_client bs txs"
  let ?fl = "getblock_fails_at ?cl (hash (bs ! j))"
  let ?s1 = "rpc_call (RpcGetBlockHash (int k)) (rpc_call RpcGetBlockCount s)"
  have k: "k < length bs" "k \<le> length bs" using assms(3) j by simp_all
  have w: "get_db_height cd (st_db s) = int k - 1"
    using get_db_height_synced [OF canon ok k(2)] st by simp
  from walk_chain_blocks [OF chain_blocks_fails_at [OF canon assms(3) j, of txs], of cd "int k" ?s1]
  obtain s2 where wk: "walk ?fl cd (int k) (hash (bs ! k)) [] ?s1 = Some ([], s2)"
    and d: "st_db s2 = db_write (concat (map (block_entries ?fl cd) (take (j - k) (drop k bs)))) (st_db ?s1)"
    by blast
  have f: "fetch_new_blocks ?fl cd s = Some (st_write [] s2)"
    using w wk k(1) by (simp add: fetch_new_blocks_def Let_def sync_simps getblock_fails_at_def chain_client_def)
  have tk: "take j bs = take k bs @ take (j - k) (drop k bs)"
    using take_add [of k "j - k" bs] assms(3) by simp
  have "st_db (st_write [] s2) = synced_db ?cl cd bs j"
    using d st by (simp add: sync_simps block_entries_fails_at synced_db_def tk db_write_append)
  with f show ?thesis by blast
qed

text \<open>
  C15. Recovery from a transient node failure (spec section 7: a failing block fetch
  terminates the walk, "not a crash"): from a store that has cleanly synchronised the
  first \<open>k\<close> blocks of a canonical chain, a run against a node that cannot serve block
  \<open>j \<ge> k\<close> returns, leaving exactly the first \<open>j\<close> blocks synchronised and the
  watermark at \<open>j - 1\<close>; a following run against the healthy node then completes the
  chain.
\<close>

theorem transient_getblock_failure_recovers:
  assumes "canonical_chain bs" and "codec_ok cd" and "k \<le> j" and "j < length bs"
    and "st_db s = synced_db (chain_client bs txs) cd bs k"
  shows "\<exists>s' s''. fetch_new_blocks (getblock_fails_at (chain_client bs txs) (hash (bs ! j))) cd s = Some s' \<and>
           st_db s' = synced_db (chain_client bs txs) cd bs j \<and>
           get_db_height cd (st_db s') = int j - 1 \<and>
           fetch_new_blocks (chain_client bs txs) cd s' = Some s'' \<and>
           st_db s'' = synced_db (chain_client bs txs) cd bs (length bs)"
proof -
  from fetch_new_blocks_fails_at [OF assms] obtain s' where
    f: "fetch_new_blocks (getblock_fails_at (chain_client bs txs) (hash (bs ! j))) cd s = Some s'" and
    d: "st_db s' = synced_db (chain_client bs txs) cd bs j" by blast
  have jl: "j \<le> length bs" using assms(4) by simp
  from fetch_new_blocks_canonical [OF assms(1,2) jl d] obtain s'' where
    "fetch_new_blocks (chain_client bs txs) cd s' = Some s''"
    "st_db s'' = synced_db (chain_client bs txs) cd bs (length bs)" by blast
  moreover have "get_db_height cd (st_db s') = int j - 1"
    using get_db_height_synced [OF assms(1,2) jl] d by simp
  ultimately show ?thesis using f d by blast
qed

end
