(* ===== verification/DoublePut.thy ===== *)
theory DoublePut
  imports Enricher
begin

text \<open>
  The second \<open>db.put\<close> of each transaction record (lines 138--144 repeat lines
  132--135 with the same key and the same serialised value). The reference enricher
  \<open>parse_block_once\<close> is \<open>parse_block\<close> with that repetition removed. The two leave
  the same store from every state, for any node and codec; the code performs one
  extra store write for every transaction the node serves.
\<close>

definition store_tx_once ::
  "'d client \<Rightarrow> ('v, 'd) codec \<Rightarrow> string \<Rightarrow> 'v sync_state \<Rightarrow> 'v sync_state" where
  "store_tx_once client cd transaction s =
     (let k = tx_key transaction;
          s1 = rpc_call (RpcGetRawTransaction transaction) s
      in case getrawtransaction client transaction True of
           Inl err \<Rightarrow> s1
         | Inr tx_data \<Rightarrow> st_put k (serialize_tx cd (assemble_tx transaction tx_data)) s1)"

definition parse_block_once ::
  "'d client \<Rightarrow> ('v, 'd) codec \<Rightarrow> full_block \<Rightarrow> 'v sync_state \<Rightarrow> 'v sync_state" where
  "parse_block_once client cd block s =
     fold (store_tx_once client cd) (tx block)
       (st_put (format_hashes (hash block)) (serialize_block cd block) s)"

definition store_writes :: "'v event list \<Rightarrow> nat" where
  "store_writes es = length (filter (\<lambda>e. \<not> is_rpc e) es)"

lemma store_tx_once_effects:
  "st_db (store_tx_once cl cd t s) = db_write (tx_entries cl cd t) (st_db s)"
  "store_writes (st_events (store_tx_once cl cd t s)) =
     store_writes (st_events s) + length (tx_entries cl cd t)"
  by (simp_all add: store_tx_once_def tx_entries_def sync_simps Let_def db_write_Cons store_writes_def
      split: sum.split)

lemma store_tx_writes:
  "store_writes (st_events (store_tx cl cd t s)) = store_writes (st_events s) + 2 * length (tx_entries cl cd t)"
  by (simp add: store_tx_events tx_events_def tx_entries_def store_writes_def split: sum.split)

lemma fold_store_tx_once:
  "st_db (fold (store_tx_once cl cd) ts s) = db_write (concat (map (tx_entries cl cd) ts)) (st_db s) \<and>
   store_writes (st_events (fold (store_tx_once cl cd) ts s)) =
     store_writes (st_events s) + length (concat (map (tx_entries cl cd) ts))"
  by (induction ts arbitrary: s) (simp_all add: store_tx_once_effects db_write_append)

lemma fold_store_tx_writes:
  "store_writes (st_events (fold (store_tx cl cd) ts s)) =
     store_writes (st_events s) + 2 * length (concat (map (tx_entries cl cd) ts))"
  by (induction ts arbitrary: s) (simp_all add: store_tx_writes)

text \<open>
  C30. The duplicate put is redundant (equivalence with the reference enricher): for
  any node, codec and state, \<open>parse_block\<close> leaves the same store as
  \<open>parse_block_once\<close>, and performs exactly one more store write than it for each
  transaction of the block that the node serves.
\<close>

theorem parse_block_double_put_redundant:
  "st_db (parse_block cl cd b s) = st_db (parse_block_once cl cd b s) \<and>
   store_writes (st_events (parse_block cl cd b s)) =
     store_writes (st_events (parse_block_once cl cd b s)) +
     length (filter (\<lambda>t. \<not> isl (getrawtransaction cl t True)) (tx b))"
proof -
  have n: "length (concat (map (tx_entries cl cd) ts)) =
      length (filter (\<lambda>t. \<not> isl (getrawtransaction cl t True)) ts)" for ts
    by (induction ts) (simp_all add: tx_entries_def split: sum.split)
  show ?thesis
    by (simp add: parse_block_def parse_block_once_def parse_block_db fold_store_tx_once
        fold_store_tx_writes fold_store_tx_db block_entries_def sync_simps db_write_Cons n)
qed

end
