(* ===== verification/Cost.thy ===== *)
theory Cost
  imports Trace DoublePut
begin

text \<open>
  The cost of a run (\<open>fetch_new_blocks\<close>, lines 10--87) on a canonical chain, read off
  its exact effect sequence \<open>run_events\<close>: how many RPC calls it makes and how many
  times it writes to the store. Each block costs one \<open>getblock\<close> and one
  \<open>getrawtransaction\<close> per transaction id; it costs one put for the block record and
  two for every transaction the node serves (lines 132--144), and the run adds a
  batch write after each block at a height that is a multiple of 100 with a
  successor (line 68) and one at the end (line 86).
\<close>

lemma store_writes_Nil [simp]: "store_writes [] = 0"
  and store_writes_append [simp]: "store_writes (xs @ ys) = store_writes xs + store_writes ys"
  and store_writes_Cons [simp]: "store_writes (e # es) = (if is_rpc e then 0 else 1) + store_writes es"
  by (simp_all add: store_writes_def)

lemma count_if_length_filter: "sum_list (map (\<lambda>x. if P x then 1 else 0) xs) = length (filter P xs)"
  by (induction xs) simp_all

lemma map_nth_upt_drop: "map (\<lambda>i. f (bs ! i)) [k..<length bs] = map f (drop k bs)"
  by (rule nth_equalityI) simp_all

lemma tx_events_counts:
  "length (rpc_calls (tx_events cl cd t)) = 1"
  "store_writes (tx_events cl cd t) = 2 * length (tx_entries cl cd t)"
  by (simp_all add: tx_events_def tx_entries_def split: sum.split)

lemma tx_list_counts:
  "length (rpc_calls (concat (map (tx_events cl cd) ts))) = length ts"
  "store_writes (concat (map (tx_events cl cd) ts)) = 2 * length (concat (map (tx_entries cl cd) ts))"
  by (induction ts) (simp_all add: tx_events_counts)

lemma chain_tx_served:
  "length (concat (map (tx_entries (chain_client bs txs) cd) ts)) = length (filter (\<lambda>t. \<not> isl (txs t)) ts)"
  by (induction ts) (auto simp: tx_entries_def chain_client_def split: sum.split)

lemma int_mod_100: "int i mod 100 = 0 \<longleftrightarrow> i mod 100 = 0"
proof -
  have "int i mod 100 = int (i mod 100)" by (simp add: of_nat_mod)
  then show ?thesis by simp
qed

lemma block_trace_counts:
  "length (rpc_calls (block_trace (chain_client bs txs) cd bs i)) = Suc (length (tx (bs ! i)))"
  "store_writes (block_trace (chain_client bs txs) cd bs i) =
     1 + 2 * length (filter (\<lambda>t. \<not> isl (txs t)) (tx (bs ! i))) +
     (if Suc i < length bs \<and> i mod 100 = 0 then 1 else 0)"
  by (simp_all add: block_trace_def block_events_def tx_list_counts chain_tx_served int_mod_100)

lemma flushes_upt:
  "length (filter (\<lambda>i. Suc i < n \<and> i mod 100 = 0) [k..<n]) =
     length (filter (\<lambda>i. i mod 100 = 0) [k..<n - 1])"
proof (cases n)
  case 0
  then show ?thesis by simp
next
  case (Suc m)
  have "filter (\<lambda>i. Suc i < Suc m \<and> i mod 100 = 0) [k..<m] = filter (\<lambda>i. i mod 100 = 0) [k..<m]"
    by (rule filter_cong) auto
  with Suc show ?thesis by simp
qed

lemma rpc_calls_concat: "rpc_calls (concat xss) = concat (map rpc_calls xss)"
  and store_writes_concat: "store_writes (concat xss) = sum_list (map store_writes xss)"
  by (induction xss) simp_all

lemma canonical_trace_counts:
  "length (rpc_calls (canonical_trace (chain_client bs txs) cd bs k)) =
     sum_list (map (\<lambda>b. Suc (length (tx b))) (drop k bs))"
  "store_writes (canonical_trace (chain_client bs txs) cd bs k) =
     sum_list (map (\<lambda>b. 1 + 2 * length (filter (\<lambda>t. \<not> isl (txs t)) (tx b))) (drop k bs)) +
     length (filter (\<lambda>i. i mod 100 = 0) [k..<length bs - 1])"
proof -
  let ?cl = "chain_client bs txs"
  let ?w = "\<lambda>b. 1 + 2 * length (filter (\<lambda>t. \<not> isl (txs t)) (tx b))"
  have "length (rpc_calls (canonical_trace ?cl cd bs k)) =
      sum_list (map (\<lambda>i. Suc (length (tx (bs ! i)))) [k..<length bs])"
    by (simp add: canonical_trace_def rpc_calls_concat length_concat block_trace_counts comp_def)
  then show "length (rpc_calls (canonical_trace ?cl cd bs k)) =
      sum_list (map (\<lambda>b. Suc (length (tx b))) (drop k bs))"
    using map_nth_upt_drop [of "\<lambda>b. Suc (length (tx b))" bs k] by simp
  have "store_writes (canonical_trace ?cl cd bs k) =
      sum_list (map (\<lambda>i. ?w (bs ! i) + (if Suc i < length bs \<and> i mod 100 = 0 then 1 else 0)) [k..<length bs])"
    by (simp add: canonical_trace_def store_writes_concat block_trace_counts comp_def)
  also have "\<dots> = sum_list (map (\<lambda>i. ?w (bs ! i)) [k..<length bs]) +
      sum_list (map (\<lambda>i. if Suc i < length bs \<and> i mod 100 = 0 then 1 else 0) [k..<length bs])"
    by (rule sum_list_addf)
  finally show "store_writes (canonical_trace ?cl cd bs k) =
      sum_list (map ?w (drop k bs)) + length (filter (\<lambda>i. i mod 100 = 0) [k..<length bs - 1])"
    using map_nth_upt_drop [of ?w bs k] by (simp only: count_if_length_filter flushes_upt)
qed


text \<open>
  C38. The cost of a run on a canonical chain: from a store whose watermark is
  \<open>k - 1\<close>, \<open>fetch_new_blocks\<close> returns after exactly two RPC calls plus, for every
  block from height \<open>k\<close> to the tip, one \<open>getblock\<close> and one
  \<open>getrawtransaction\<close> per transaction id; it writes to the store once per block
  record, twice per transaction the node serves, once per batch flush at a height
  below the tip that is a multiple of 100, and once at the end (nothing at all when
  there is no new block).
\<close>

theorem fetch_new_blocks_cost:
  assumes "canonical_chain bs" and "k \<le> length bs"
    and "get_db_height cd (st_db s) = int k - 1"
  shows "\<exists>s' es. fetch_new_blocks (chain_client bs txs) cd s = Some s' \<and> st_events s' = st_events s @ es \<and>
           length (rpc_calls es) = 2 + sum_list (map (\<lambda>b. Suc (length (tx b))) (drop k bs)) \<and>
           store_writes es =
             (if k < length bs
              then sum_list (map (\<lambda>b. 1 + 2 * length (filter (\<lambda>t. \<not> isl (txs t)) (tx b))) (drop k bs)) +
                   length (filter (\<lambda>i. i mod 100 = 0) [k..<length bs - 1]) + 1
              else 0)"
proof -
  let ?es = "run_events (chain_client bs txs) cd bs k"
  from fetch_new_blocks_canonical_trace [OF assms, of txs] obtain s' where
    f: "fetch_new_blocks (chain_client bs txs) cd s = Some s'" and e: "st_events s' = st_events s @ ?es"
    by blast
  have "length (rpc_calls ?es) = 2 + sum_list (map (\<lambda>b. Suc (length (tx b))) (drop k bs))"
    using assms(2) by (cases "k < length bs") (simp_all add: run_events_def canonical_trace_counts)
  moreover have "store_writes ?es =
      (if k < length bs
       then sum_list (map (\<lambda>b. 1 + 2 * length (filter (\<lambda>t. \<not> isl (txs t)) (tx b))) (drop k bs)) +
            length (filter (\<lambda>i. i mod 100 = 0) [k..<length bs - 1]) + 1
       else 0)"
    by (simp add: run_events_def canonical_trace_counts)
  ultimately show ?thesis using f e by blast
qed

end
