(* ===== verification/Overflow.thy ===== *)
theory Overflow
  imports Watermark
begin

text \<open>
  The \<open>i64\<close> addition of line 30, \<open>current_block_height = db_height + 1\<close>, at the
  width the code computes it. The model of the walker counts heights in \<open>int\<close>; here
  the watermark the scan returns is fed to the 64-bit successor, wrapping
  (\<open>i64_succ\<close>, a release build) and checked (\<open>i64_checked_succ\<close>, a debug build,
  where overflow panics). A stored value can only carry an \<open>i64\<close> height, so the
  decoded heights are bounded by \<open>i64::MAX\<close>; the watermark then is too, and the
  addition overflows exactly when some stored block has height \<open>i64::MAX\<close>.
\<close>

lemma i64_succ_max: "i64_succ i64_max = - (2 ^ 63)"
  by (simp add: i64_succ_def i64_max_def)

lemma i64_checked_succ_None: "h \<le> i64_max \<Longrightarrow> i64_checked_succ h = None \<longleftrightarrow> h = i64_max"
  by (auto simp: i64_checked_succ_def)

lemma get_db_height_le_bound:
  assumes "\<And>b. b \<in> set (decoded_blocks cd d) \<Longrightarrow> height b \<le> H" and "-1 \<le> H"
  shows "get_db_height cd d \<le> H"
proof -
  have "Max (insert (-1) (height ` set (decoded_blocks cd d))) \<le> H"
    using assms by (subst Max_le_iff) auto
  then show ?thesis by (simp add: get_db_height_fold fold_scan_step_Max)
qed

lemma get_db_height_eq_bound:
  assumes "\<And>b. b \<in> set (decoded_blocks cd d) \<Longrightarrow> height b \<le> H" and "-1 < H"
  shows "get_db_height cd d = H \<longleftrightarrow> (\<exists>b \<in> set (decoded_blocks cd d). height b = H)"
proof
  assume "get_db_height cd d = H"
  then have "H \<in> insert (-1) (height ` set (decoded_blocks cd d))"
    using Max_in [of "insert (-1) (height ` set (decoded_blocks cd d))"]
    by (simp add: get_db_height_fold fold_scan_step_Max)
  with assms(2) show "\<exists>b \<in> set (decoded_blocks cd d). height b = H" by auto
next
  assume "\<exists>b \<in> set (decoded_blocks cd d). height b = H"
  then show "get_db_height cd d = H"
    using assms by (intro get_db_height_eqI) auto
qed

text \<open>
  C39. Overflow of the start height (line 30, \<open>i64\<close>): when every block the store
  holds has an \<open>i64\<close> height, the watermark's successor overflows, so that a debug
  build panics, exactly when some stored block has height \<open>i64::MAX\<close>; a release
  build then asks the node for the hash at \<open>i64::MIN\<close>, and otherwise computes the
  same start height as the model's unbounded \<open>+ 1\<close>.
\<close>

theorem start_height_overflow:
  assumes bnd: "\<forall>b \<in> set (decoded_blocks cd d). height b \<le> i64_max"
  shows "(i64_checked_succ (get_db_height cd d) = None \<longleftrightarrow>
            (\<exists>b \<in> set (decoded_blocks cd d). height b = i64_max)) \<and>
         i64_succ (get_db_height cd d) =
           (if \<exists>b \<in> set (decoded_blocks cd d). height b = i64_max then - (2 ^ 63)
            else get_db_height cd d + 1)"
proof -
  let ?g = "get_db_height cd d"
  have pos: "-1 < i64_max" by (simp add: i64_max_def)
  have le: "?g \<le> i64_max" using bnd pos by (intro get_db_height_le_bound) auto
  have eq: "?g = i64_max \<longleftrightarrow> (\<exists>b \<in> set (decoded_blocks cd d). height b = i64_max)"
    using bnd pos by (intro get_db_height_eq_bound) auto
  have "i64_succ ?g = (if ?g = i64_max then - (2 ^ 63) else ?g + 1)"
  proof (cases "?g = i64_max")
    case True
    then show ?thesis by (simp add: i64_succ_max)
  next
    case False
    have "- (2 ^ 63) \<le> ?g" using get_db_height_sentinel [of cd d] by simp
    with False le show ?thesis by (simp add: i64_succ_exact)
  qed
  with eq i64_checked_succ_None [OF le] show ?thesis by simp
qed

end
