(* ===== verification/Spec2Isabelle.thy ===== *)
theory Spec2Isabelle
  imports Typing Pipeline Growth Loss Resume Faults DoublePut Cost Overflow
begin

text \<open>
  \<^bold>\<open>A verification model of rusty-pivx-parser.\<close>
  The program (\<open>src/src/main.rs\<close>) copies a PIVX chain from a node's RPC interface
  into a RocksDB store. \<open>main\<close> opens the store and builds the client, then calls
  \<open>fetch_new_blocks\<close> once. That function reads the node's block count and finds the
  store's watermark with \<open>get_db_height\<close>: a scan of every stored value for the
  largest block height, \<open>-1\<close> when there is none. It then asks for the hash at
  \<open>watermark + 1\<close> and follows each block's \<open>nextblockhash\<close> to the tip. For each block,
  \<open>parse_block\<close> puts the block under \<open>format_hashes\<close> of its hash, then fetches each
  transaction and puts it under \<open>"transaction:" ++ id\<close>. A \<open>WriteBatch\<close> is written every
  100 blocks and at the end.

  \<^bold>\<open>Theories\<close> (each models the named lines and opens with its own summary).
  \<^item> \<open>Prelude\<close>: key, height and \<open>i64\<close> types (\<open>i64_succ\<close> is Rust's wrapping
    \<open>+ 1\<close> on a 64-bit word, \<open>i64_checked_succ\<close> the debug build's checked one), the
    \<open>sync_simps\<close> collection, and generic list and map lemmas.
  \<^item> \<open>Store\<close>: RocksDB, modelled from the spec since it is not in the repository. It is
    a strictly key-sorted association list with \<open>db_put\<close>, \<open>db_write\<close> and the
    iterator \<open>db_iterator\<close>, whose items are \<open>Result\<close>s.
  \<^item> \<open>Rpc\<close>: the node interface (\<open>client\<close>), the records \<open>full_block\<close> and
    \<open>raw_tx_info\<close>, and the \<open>bincode\<close> codec with its laws \<open>codec_ok\<close> and
    \<open>codec_roundtrip\<close>. It also holds a node serving a canonical chain
    (\<open>chain_client\<close>, \<open>canonical_chain\<close>).
  \<^item> \<open>Keys\<close>: \<open>format_hashes\<close> (lines 6--8) and \<open>tx_key\<close> (line 100).
  \<^item> \<open>State\<close>: the run's state, the store plus the ordered log of effects (RPC calls,
    puts, batch writes). \<open>replay_store\<close> gives the store a crash after any prefix of
    those effects leaves.
  \<^item> \<open>Watermark\<close>: \<open>get_db_height\<close> (lines 163--194). Its \<open>while let\<close> loop is
    \<open>scan_items\<close> and its body is \<open>scan_step\<close>.
  \<^item> \<open>Enricher\<close>: \<open>parse_block\<close> (lines 89--161), with \<open>store_tx\<close> and \<open>assemble_tx\<close>.
  \<^item> \<open>Walker\<close>: \<open>fetch_new_blocks\<close> (lines 10--87). Its loop \<open>walk\<close> (lines
    47--84) is a \<open>partial_function (option)\<close>, so \<open>None\<close> is a run that never
    returns. \<open>walk_Some_induct\<close> is the induction rule for returning walks.
  \<^item> \<open>Chain\<close>: runs against a node serving one canonical chain, from a store that has
    synchronised a prefix of it (\<open>synced_db\<close>).
  \<^item> \<open>Trace\<close>: the exact effect sequence of a canonical run, flushes included
    (\<open>run_events\<close>).
  \<^item> \<open>Process\<close>: \<open>main\<close> (lines 196--213) as \<open>main_prog\<close>.
  \<^item> \<open>Recovery\<close>: repeated processes, each stopping after any of its effects
    (\<open>reachable_store\<close>, an inductive predicate), and the invariant \<open>recoverable\<close>.
  \<^item> \<open>Typing\<close>: the store's typing discipline \<open>store_typed\<close>, against any node.
  \<^item> \<open>Pipeline\<close>: the spec's state machine of one run (section 5), as a labelled
    \<open>inductive\<close> step relation \<open>pipeline_step\<close> over the phases \<open>Idle\<close> to
    \<open>Done\<close>/\<open>Failed\<close>, with its runs \<open>pipeline_run\<close> and the flush counter
    \<open>fetches_within\<close>.
  \<^item> \<open>Growth\<close>: a chain that grows at its tip between two runs (\<open>chain_grows\<close>).
  \<^item> \<open>Loss\<close>: histories of processes that count their interruptions
    (\<open>crash_history\<close>, the same stores as \<open>reachable_store\<close>) and the blocks a store
    has lost (\<open>lost_blocks\<close>: record stored, a fetched transaction missing).
  \<^item> \<open>Resume\<close>: what a restarted process does to the progress on disk, and a walk
    started below the stored prefix.
  \<^item> \<open>Faults\<close>: a node whose \<open>getblock\<close> fails at one block (\<open>getblock_fails_at\<close>).
  \<^item> \<open>DoublePut\<close>: the reference enricher \<open>parse_block_once\<close>, without the repeated
    transaction put, and the count of store writes \<open>store_writes\<close>.
  \<^item> \<open>Cost\<close>: the RPC calls and store writes of a canonical run, counted on
    \<open>run_events\<close>.
  \<^item> \<open>Overflow\<close>: the \<open>i64\<close> addition of line 30 applied to the scanned watermark.
  \<^item> This theory: the spec's three-block scenario, the crash inside one block, the
    fixtures (demo chain, codecs, faulty nodes) and the witnesses.

  \<^bold>\<open>What is proved.\<close>
  \<^item> \<open>Walker\<close>, for any node: the store effect of a run refines writing the visited
    blocks' entries in order. The loop returns exactly when the successor links end,
    and diverges on a cycle. The two early returns are its error paths. The reported
    tip height never changes a run.
  \<^item> \<open>Chain\<close> and \<open>Trace\<close>, against a canonical chain: a run completes without gaps,
    fetches each new block once in height order, and is idempotent on resume. Its
    effects are exactly \<open>run_events\<close>, with an empty batch written after every
    non-tip block whose height is a multiple of 100.
  \<^item> \<open>Recovery\<close>, under crashes at any point and restarts:
    \<^item> every reachable store is recoverable (rule induction on \<open>reachable_store\<close>);
    \<^item> there is never a gap below the watermark;
    \<^item> one complete run restores every block;
    \<^item> the \<open>i64\<close> addition of line 30 never overflows, in a debug or a release
      build, and gives the number of blocks already recovered.
  \<^item> \<open>Typing\<close>: every reachable store is well typed, for any node.
  \<^item> \<open>Loss\<close>: every interrupted process loses the transactions of at most one block,
    and a history without interruptions loses none (rule induction on
    \<open>crash_history\<close>).
  \<^item> \<open>Resume\<close>: a process started on any reachable store never fetches a block whose
    record is stored, and wherever it stops the watermark does not decrease. A walk
    started at any height inside the stored prefix (as after an iterator error)
    still returns and leaves exactly the store of a complete synchronisation; this
    rests on \<open>db_wf_eq\<close> (\<open>Store\<close>): two well-formed stores with the same entries are
    equal.
  \<^item> \<open>Cost\<close>: a canonical run from watermark \<open>k - 1\<close> makes two RPC calls plus one
    per block and one per transaction id, and writes once per block record, twice per
    served transaction, once per 100-block flush and once at the end.
  \<^item> \<open>Overflow\<close>: on a store of \<open>i64\<close> heights, \<open>db_height + 1\<close> overflows exactly
    when a stored block has height \<open>i64::MAX\<close>; the release build then asks for the
    hash at \<open>i64::MIN\<close>, and otherwise agrees with the model's \<open>+ 1\<close>.
  \<^item> \<open>Faults\<close>: a \<open>getblock\<close> failure in the middle of the chain ends the walk
    normally with a clean prefix stored, from which a healthy run completes the chain.
  \<^item> \<open>Growth\<close>: after the chain grows, a run from a fully synchronised store fetches
    exactly the new blocks once each and leaves every block stored, with the
    watermark at the new tip.
  \<^item> \<open>Pipeline\<close>, for any node: the effects of every run that returns are one path of
    the spec's state machine, ending in \<open>Failed\<close> exactly on the two early returns.
    By rule induction on the machine, at most 100 blocks are fetched between two
    batch writes.
  \<^item> \<open>Watermark\<close>: the scan equals the maximum of the decodable heights, is monotone, and
    stops at an iterator error.
  \<^item> \<open>Enricher\<close>: a block's effects refine one batch commit of its entries, failing
    transactions are isolated, and the block record is written first.
  \<^item> \<open>Store\<close> and \<open>Keys\<close>: the store operations keep their ordering invariant, and
    the two key namespaces are injective, disjoint and invertible.

  \<^bold>\<open>Findings.\<close>
  \<^item> The write batch is never filled, so every write commits nothing and no group of
    puts is atomic. The spec's batch atomicity fails: a process that stops after its
    first block record leaves the watermark at \<open>0\<close> with no batch written.
  \<^item> A crash between a block's record and its transactions loses those transactions for
    good, since the watermark already counts the block.
  \<^item> The tip height from \<open>getblockcount\<close> is read but never bounds the walk.
  \<^item> Each transaction is put twice with the same key and value: the store is the one
    a single put gives, at one extra write per served transaction (\<open>DoublePut\<close>).
  \<^item> A successor cycle makes the run diverge.
  \<^item> A stored value that decodes as a block of too large a height makes every later run
    skip the blocks below it (the fixture \<open>untagged_codec\<close>).
  \<^item> An iterator error silently lowers the watermark (harmless on a canonical chain:
    the blocks above it are fetched and put again with the same values).
  \<^item> A stored block of height \<open>i64::MAX\<close> makes line 30 overflow: a panic in a debug
    build, a request for \<open>getblockhash(i64::MIN)\<close> in a release build.
  \<^item> Stored records are never refreshed: after the chain grows, the old tip's record
    keeps an empty \<open>nextblockhash\<close>, so stored successor links stop at the old tip.

  \<^bold>\<open>Bounds and fuel.\<close>
  \<^item> Heights are \<open>i64\<close> in the source and \<open>int\<close> here. The theory \<open>Recovery\<close> shows
    that on chains of at most \<open>i64::MAX\<close> blocks the \<open>+ 1\<close> of line 30 never
    overflows on a store that crashes and restarts can leave, and agrees there with the
    \<open>int\<close> addition of the model. The \<open>+= 1\<close> of line 75 stays \<open>int\<close>: on a
    canonical chain it counts along block heights (\<open>Trace\<close> pins the flush heights to
    the blocks' indices), all below the tip. \<open>i64_succ_max\<close> (\<open>Overflow\<close>)
    shows the wrap at \<open>i64::MAX\<close>, which only a stored value decoding to that height
    could reach; \<open>Overflow\<close> shows that it is reached exactly then, and what each
    build does there.
  \<^item> Rust's \<open>%\<close> truncates while \<open>mod\<close> floors, but \<open>h % 100 == 0\<close> and
    \<open>h mod 100 = 0\<close> agree for every \<open>h\<close>: both mean that 100 divides \<open>h\<close>.
  \<^item> No fuel bound is assumed. The fuelled traversals \<open>chain_blocks\<close> and
    \<open>chain_trace\<close> are references, and the loop returns exactly when some fuel suffices.

  \<^bold>\<open>Not modelled.\<close>
  \<^item> The three crates the program calls are not in the repository, so only the
    interface \<open>src/src/main.rs\<close> uses is modelled, from the spec: the node client of
    \<open>rusty_piv\<close> (\<open>client\<close>: a fixed function of its arguments), RocksDB
    (\<open>Store\<close>: a sorted map with put, batch write and a fallible iterator), and
    \<open>bincode\<close> (\<open>codec\<close>: an abstract encoder and decoder). Their inner workings
    (transport, retries, storage engine, wire format) are outside this program.
  \<^item> Logging and timing: they have no effect on the store or the calls.
  \<^item> The configuration constants of \<open>main\<close>: the client is a parameter.
  \<^item> The read-back \<open>db.get\<close> in \<open>parse_block\<close>: its result is only logged.
  \<^item> Byte-level \<open>bincode\<close>: the codec is abstract, with stated laws.
  \<^item> Failures of \<open>put\<close>, \<open>write\<close> and \<open>serialize\<close>: \<open>unwrap\<close> turns them into
    panics, which end the process after a prefix of its effects. These are the crashes
    that \<open>reachable_store\<close> covers.
  \<^item> Durability beyond a process crash (power loss): returned RocksDB writes are taken
    as durable.
\<close>

subsection \<open>The spec's scenario: three linked blocks with one transaction each\<close>

definition blk0 :: full_block where
  "blk0 = \<lparr>hash = ''h0'', height = 0, tx = [''t0''], nextblockhash = Some ''h1''\<rparr>"

definition blk1 :: full_block where
  "blk1 = \<lparr>hash = ''h1'', height = 1, tx = [''t1''], nextblockhash = Some ''h2''\<rparr>"

definition blk2 :: full_block where
  "blk2 = \<lparr>hash = ''h2'', height = 2, tx = [''t2''], nextblockhash = None\<rparr>"

definition demo_chain :: "full_block list" where
  "demo_chain = [blk0, blk1, blk2]"

definition demo_txs :: "string \<Rightarrow> rpc_error + unit raw_tx_info" where
  "demo_txs t = Inr \<lparr>txid = t, tx_fields = ()\<rparr>"

abbreviation demo_client :: "unit client" where
  "demo_client \<equiv> chain_client demo_chain demo_txs"

abbreviation demo_codec :: "(unit stored_value, unit) codec" where
  "demo_codec \<equiv> tagged_codec"

definition empty_state :: "unit stored_value sync_state" where
  "empty_state = \<lparr>st_db = [], st_events = []\<rparr>"

text \<open>A block whose first transaction the node cannot serve.\<close>

definition blk_iso :: full_block where
  "blk_iso = \<lparr>hash = ''h9'', height = 0, tx = [''bad'', ''t0''], nextblockhash = None\<rparr>"

definition iso_txs :: "string \<Rightarrow> rpc_error + unit raw_tx_info" where
  "iso_txs t = (if t = ''bad'' then Inl NotFoundError else Inr \<lparr>txid = t, tx_fields = ()\<rparr>)"

text \<open>A block that names itself as its successor.\<close>

definition blk_loop :: full_block where
  "blk_loop = \<lparr>hash = ''h0'', height = 0, tx = [], nextblockhash = Some ''h0''\<rparr>"

text \<open>
  A codec without a record-kind tag: like \<open>bincode\<close> reading a transaction's bytes as a
  \<open>FullBlock\<close>, it decodes a stored transaction as a block whose hash is the
  transaction id and whose height comes from the id's length.
\<close>

definition untagged_codec :: "(unit stored_value, unit) codec" where
  "untagged_codec = tagged_codec\<lparr>deserialize_block := (\<lambda>v. case v of
       StoredBlock b \<Rightarrow> Inr b
     | StoredTx t \<Rightarrow> Inr \<lparr>hash = txid t, height = int (length (txid t)), tx = [], nextblockhash = None\<rparr>)\<rparr>"

text \<open>A node that answers every transaction request with a record of another id.\<close>

definition liar_txs :: "string \<Rightarrow> rpc_error + unit raw_tx_info" where
  "liar_txs t = Inr \<lparr>txid = ''other'', tx_fields = ()\<rparr>"

text \<open>The demo chain after it has grown by one block: the old tip now names its successor.\<close>

definition blk2_grown :: full_block where
  "blk2_grown = blk2\<lparr>nextblockhash := Some ''h3''\<rparr>"

definition blk3 :: full_block where
  "blk3 = \<lparr>hash = ''h3'', height = 3, tx = [''t3''], nextblockhash = None\<rparr>"

definition grown_chain :: "full_block list" where
  "grown_chain = [blk0, blk1, blk2_grown, blk3]"

text \<open>A block at the largest height an \<open>i64\<close> holds, and a store holding only its record.\<close>

definition blk_max :: full_block where
  "blk_max = \<lparr>hash = ''hmax'', height = i64_max, tx = [], nextblockhash = None\<rparr>"

definition max_store :: "unit stored_value db" where
  "max_store = [(format_hashes ''hmax'', StoredBlock blk_max)]"

lemmas demo_defs = blk0_def blk1_def blk2_def demo_chain_def demo_txs_def

lemma demo_canonical: "canonical_chain demo_chain"
  by (simp add: canonical_chain_def demo_defs)

lemma demo_chain_grows: "chain_grows demo_chain grown_chain"
  by (simp add: chain_grows_def canonical_chain_def forget_next_def grown_chain_def blk2_grown_def
      blk3_def demo_defs)

lemma empty_state_synced: "st_db empty_state = synced_db demo_client demo_codec demo_chain 0"
  by (simp add: empty_state_def synced_db_def)

lemma empty_db_wf: "db_wf []"
  by (simp add: db_wf_def)

lemma demo_first_run:
  "\<exists>s. main_prog (Inr []) (chain_client demo_chain txs) demo_codec = Inr (Some s) \<and>
     st_events s = run_events (chain_client demo_chain txs) demo_codec demo_chain 0"
proof -
  have "get_db_height demo_codec (st_db \<lparr>st_db = [], st_events = []\<rparr>) = int 0 - 1"
    by (simp add: get_db_height_fold)
  from fetch_new_blocks_canonical_trace [OF demo_canonical _ this, of txs] show ?thesis
    by (auto simp: main_prog_opened)
qed

lemma demo_prefix_reachable:
  "reachable_store (chain_client demo_chain txs) demo_codec
     (replay_store (take n (run_events (chain_client demo_chain txs) demo_codec demo_chain 0)) [])"
proof -
  from demo_first_run obtain s where r: "main_prog (Inr []) (chain_client demo_chain txs) demo_codec = Inr (Some s)"
    and e: "st_events s = run_events (chain_client demo_chain txs) demo_codec demo_chain 0" by blast
  from reachable_store.restart [OF reachable_store.fresh r, of n] e show ?thesis by simp
qed

text \<open>The store a first process leaves when it stops right after its fourth effect.\<close>

lemma demo_crash_store:
  "replay_store (take 4 (run_events demo_client demo_codec demo_chain 0)) [] =
     [(format_hashes ''h0'', StoredBlock blk0)]"
  by (simp add: run_events_def canonical_trace_def block_trace_def block_events_def demo_chain_def
      upt_conv_Cons replay_store_Cons tagged_codec_def blk0_def)

lemma demo_crash_reachable:
  "reachable_store demo_client demo_codec (replay_store (take 4 (run_events demo_client demo_codec demo_chain 0)) [])"
  by (rule demo_prefix_reachable)

lemma demo_crash_history:
  "crash_history demo_client demo_codec 1 (replay_store (take 4 (run_events demo_client demo_codec demo_chain 0)) [])"
proof -
  from demo_first_run [of demo_txs] obtain s where
    r: "main_prog (Inr []) demo_client demo_codec = Inr (Some s)" and
    e: "st_events s = run_events demo_client demo_codec demo_chain 0" by blast
  from crash_history.crash [OF crash_history.fresh r, of 4] e show ?thesis by simp
qed

lemma demo_restart_run:
  "\<exists>s. main_prog (Inr [(format_hashes ''h0'', StoredBlock blk0)]) demo_client demo_codec = Inr (Some s) \<and>
     st_events s = run_events demo_client demo_codec demo_chain 1"
proof -
  have w: "get_db_height demo_codec (st_db \<lparr>st_db = [(format_hashes ''h0'', StoredBlock blk0)], st_events = []\<rparr>) =
      int 1 - 1"
    by (simp add: get_db_height_fold scan_step_def tagged_codec_def blk0_def)
  have "1 \<le> length demo_chain" by (simp add: demo_chain_def)
  from fetch_new_blocks_canonical_trace [OF demo_canonical this w, of demo_txs] show ?thesis
    by (auto simp: main_prog_opened)
qed

subsection \<open>The end-to-end scenario of the spec\<close>

text \<open>
  C4. The spec's end-to-end scenario (section 8): from an empty store, a chain of
  three linked blocks (heights 0, 1, 2, one transaction each, the last without
  successor) yields exactly three block entries and three transaction entries, and a
  second run makes no RPC call beyond the block count and the hash at the new
  watermark, and changes nothing.
\<close>

theorem spec_scenario_three_blocks:
  "\<exists>s1. fetch_new_blocks demo_client demo_codec empty_state = Some s1 \<and>
     length (filter (\<lambda>e. parse_block_key (fst e) \<noteq> None) (st_db s1)) = 3 \<and>
     length (filter (\<lambda>e. parse_tx_key (fst e) \<noteq> None) (st_db s1)) = 3 \<and>
     length (st_db s1) = 6 \<and>
     fetch_new_blocks demo_client demo_codec s1 =
       Some (s1\<lparr>st_events := st_events s1 @ [RpcGetBlockCount, RpcGetBlockHash 3]\<rparr>)"
proof -
  from fetch_new_blocks_canonical [OF demo_canonical codec_ok_tagged_codec _ empty_state_synced]
  obtain s1 where r: "fetch_new_blocks demo_client demo_codec empty_state = Some s1"
    and d: "st_db s1 = synced_db demo_client demo_codec demo_chain (length demo_chain)" by blast
  have wm: "get_db_height demo_codec (st_db s1) = 2"
    using get_db_height_synced [OF demo_canonical codec_ok_tagged_codec order.refl] d
    by (simp add: demo_chain_def)
  have again: "fetch_new_blocks demo_client demo_codec s1 =
      Some (s1\<lparr>st_events := st_events s1 @ [RpcGetBlockCount, RpcGetBlockHash 3]\<rparr>)"
    using wm by (simp add: fetch_new_blocks_def Let_def sync_simps rpc_call_def chain_client_def
        demo_chain_def)
  have "synced_db demo_client demo_codec demo_chain (length demo_chain) =
      [(format_hashes ''h0'', StoredBlock blk0), (format_hashes ''h1'', StoredBlock blk1),
       (format_hashes ''h2'', StoredBlock blk2),
       (tx_key ''t0'', StoredTx \<lparr>txid = ''t0'', tx_fields = ()\<rparr>),
       (tx_key ''t1'', StoredTx \<lparr>txid = ''t1'', tx_fields = ()\<rparr>),
       (tx_key ''t2'', StoredTx \<lparr>txid = ''t2'', tx_fields = ()\<rparr>)]"
    by (simp add: synced_db_def demo_chain_def block_entries_def tx_entries_def chain_client_def
        demo_txs_def tagged_codec_def assemble_tx_def db_write_def format_hashes_def tx_key_def
        blk0_def blk1_def blk2_def)
  with d have "length (filter (\<lambda>e. parse_block_key (fst e) \<noteq> None) (st_db s1)) = 3 \<and>
     length (filter (\<lambda>e. parse_tx_key (fst e) \<noteq> None) (st_db s1)) = 3 \<and> length (st_db s1) = 6"
    by simp
  with r again show ?thesis by blast
qed

subsection \<open>A crash inside one block\<close>

text \<open>
  C5. Durability across a crash (spec sections 4.3 and 8): the block record of the first
  missing block is put directly into the store before its transactions are requested.
  If the process stops right after that put, the store on disk is the synced prefix plus
  that one block record, so the watermark already reads as the block's height. A
  transaction carried only by that block is then never stored: a restarted run from the
  crashed store neither fetches nor stores it, although the uninterrupted run does.
\<close>

theorem crash_after_block_record_loses_transactions:
  assumes canon: "canonical_chain bs" and ok: "codec_ok cd" and k: "k < length bs"
    and st: "st_db s = synced_db (chain_client bs txs) cd bs k"
    and t: "t \<in> set (tx (bs ! k))" and only: "\<forall>j < length bs. j \<noteq> k \<longrightarrow> t \<notin> set (tx (bs ! j))"
    and served: "txs t = Inr d"
  shows "\<exists>s' rest. fetch_new_blocks (chain_client bs txs) cd s = Some s' \<and>
     st_events s' = st_events s @
       [RpcGetBlockCount, RpcGetBlockHash (int k), RpcGetBlock (hash (bs ! k)),
        DbPut (format_hashes (hash (bs ! k))) (serialize_block cd (bs ! k))] @ rest \<and>
     map_of (st_db s') (tx_key t) = Some (serialize_tx cd (assemble_tx t d)) \<and>
     replay_store [RpcGetBlockCount, RpcGetBlockHash (int k), RpcGetBlock (hash (bs ! k)),
        DbPut (format_hashes (hash (bs ! k))) (serialize_block cd (bs ! k))] (st_db s) =
       db_put (format_hashes (hash (bs ! k))) (serialize_block cd (bs ! k)) (st_db s) \<and>
     get_db_height cd (db_put (format_hashes (hash (bs ! k))) (serialize_block cd (bs ! k)) (st_db s)) =
       int k \<and>
     (\<exists>s''. fetch_new_blocks (chain_client bs txs) cd
          \<lparr>st_db = db_put (format_hashes (hash (bs ! k))) (serialize_block cd (bs ! k)) (st_db s),
           st_events = []\<rparr> = Some s'' \<and>
        map_of (st_db s'') (tx_key t) = None \<and> RpcGetRawTransaction t \<notin> set (st_events s''))"
proof -
  let ?cl = "chain_client bs txs"
  let ?bk = "format_hashes (hash (bs ! k))" and ?bv = "serialize_block cd (bs ! k)"
  have wm: "get_db_height cd (st_db s) = int k - 1"
    using get_db_height_synced [OF canon ok] k st by simp
  \<comment> \<open>The uninterrupted run: its first store effect is the record of block \<open>k\<close>.\<close>
  from fetch_new_blocks_from_watermark [OF canon less_imp_le [OF k] wm, of txs] k obtain s' rest where
    f: "fetch_new_blocks ?cl cd s = Some s'" and
    d: "st_db s' = db_write (concat (map (block_entries ?cl cd) (drop k bs))) (st_db s)" and
    ev: "st_events s' = st_events s @ [RpcGetBlockCount, RpcGetBlockHash (int k), RpcGetBlock (hash (bs ! k))] @
           block_events ?cl cd (bs ! k) @ rest"
    by blast
  have ev': "st_events s' = st_events s @
       [RpcGetBlockCount, RpcGetBlockHash (int k), RpcGetBlock (hash (bs ! k)), DbPut ?bk ?bv] @
       (concat (map (tx_events ?cl cd) (tx (bs ! k))) @ rest)"
    using ev by (simp add: block_events_def)
  \<comment> \<open>It stores the transaction.\<close>
  have "st_db s' = synced_db ?cl cd bs (length bs)"
    using d st by (simp add: synced_db_all)
  with synced_tx_stored [where txs = txs and cd = cd, OF canon k t served]
  have stored: "map_of (st_db s') (tx_key t) = Some (serialize_tx cd (assemble_tx t d))" by simp
  \<comment> \<open>A crash right after the block record: watermark \<open>k\<close>, and the restart misses the transaction.\<close>
  have replay: "replay_store [RpcGetBlockCount, RpcGetBlockHash (int k), RpcGetBlock (hash (bs ! k)),
      DbPut ?bk ?bv] (st_db s) = db_put ?bk ?bv (st_db s)"
    by (simp add: replay_store_Cons)
  from crashed_store_watermark [OF canon ok k, of ?cl] st
  have wm_crash: "get_db_height cd (db_put ?bk ?bv (st_db s)) = int k" by simp
  from restart_after_crash_misses_tx [OF canon ok k only, of txs] st
  obtain s'' where "fetch_new_blocks ?cl cd \<lparr>st_db = db_put ?bk ?bv (st_db s), st_events = []\<rparr> = Some s''"
    "map_of (st_db s'') (tx_key t) = None" "RpcGetRawTransaction t \<notin> set (st_events s'')"
    by auto
  with f ev' stored replay wm_crash show ?thesis by blast
qed

subsection \<open>Witnesses: each property applied where its hypotheses hold\<close>

theorem sync_completes_without_gaps_witness:
  "\<exists>s'. fetch_new_blocks demo_client demo_codec empty_state = Some s' \<and>
     st_db s' = synced_db demo_client demo_codec demo_chain (length demo_chain) \<and>
     get_db_height demo_codec (st_db s') = int (length demo_chain) - 1 \<and>
     (\<forall>i < length demo_chain.
        (format_hashes (hash (demo_chain ! i)), serialize_block demo_codec (demo_chain ! i))
          \<in> set (st_db s'))"
  using sync_completes_without_gaps [OF demo_canonical codec_ok_tagged_codec _ empty_state_synced]
  by simp

theorem sync_fetches_each_new_block_once_witness:
  "\<exists>s'. fetch_new_blocks demo_client demo_codec empty_state = Some s' \<and>
     rpc_calls (st_events s') =
       [RpcGetBlockCount, RpcGetBlockHash 0,
        RpcGetBlock ''h0'', RpcGetRawTransaction ''t0'',
        RpcGetBlock ''h1'', RpcGetRawTransaction ''t1'',
        RpcGetBlock ''h2'', RpcGetRawTransaction ''t2'']"
  using sync_fetches_each_new_block_once [OF demo_canonical codec_ok_tagged_codec _ empty_state_synced]
  by (simp add: demo_defs empty_state_def)

theorem resume_is_idempotent_witness:
  "fetch_new_blocks demo_client demo_codec
      \<lparr>st_db = synced_db demo_client demo_codec demo_chain (length demo_chain), st_events = []\<rparr> =
   Some \<lparr>st_db = synced_db demo_client demo_codec demo_chain (length demo_chain),
         st_events = [RpcGetBlockCount, RpcGetBlockHash (int (length demo_chain))]\<rparr>"
  using resume_is_idempotent [OF demo_canonical codec_ok_tagged_codec,
      of "\<lparr>st_db = synced_db demo_client demo_codec demo_chain (length demo_chain), st_events = []\<rparr>"
         demo_txs]
  by simp

theorem fetch_new_blocks_returns_witness:
  "\<exists>s'. fetch_new_blocks demo_client demo_codec empty_state = Some s'"
proof -
  have "0 < length demo_chain" by (simp add: demo_chain_def)
  from chain_blocks_canonical [OF demo_canonical this, of demo_txs]
  have "chain_blocks demo_client (length demo_chain - 0) (hash (demo_chain ! 0)) = Some (drop 0 demo_chain)"
    by blast
  then have "\<forall>bh. getblockhash demo_client (get_db_height demo_codec (st_db empty_state) + 1) = Inr bh \<longrightarrow>
      (\<exists>n bs. chain_blocks demo_client n bh = Some bs)"
    by (auto simp del: chain_blocks.simps simp: empty_state_def get_db_height_fold chain_client_def)
  then show ?thesis by (rule fetch_new_blocks_returns)
qed

theorem fetch_new_blocks_batch_never_filled_witness:
  "\<exists>s'. fetch_new_blocks demo_client demo_codec empty_state = Some s' \<and>
     (\<exists>es. st_events s' = st_events empty_state @ es \<and> st_db s' = replay_store es (st_db empty_state) \<and>
           (\<forall>b. DbWrite b \<in> set es \<longrightarrow> b = []))"
proof -
  from fetch_new_blocks_canonical [OF demo_canonical codec_ok_tagged_codec _ empty_state_synced]
  obtain s' where r: "fetch_new_blocks demo_client demo_codec empty_state = Some s'" by blast
  with fetch_new_blocks_batch_never_filled [OF r] show ?thesis by blast
qed

theorem fetch_new_blocks_stores_chain_witness:
  "\<exists>s'. fetch_new_blocks demo_client demo_codec empty_state = Some s' \<and>
     st_db s' = db_write (concat (map (block_entries demo_client demo_codec) demo_chain)) (st_db empty_state)"
proof -
  have gc: "getblockcount demo_client = Inr (int (length demo_chain) - 1)" by (simp add: chain_client_def)
  have gh: "getblockhash demo_client (get_db_height demo_codec (st_db empty_state) + 1) =
      Inr (hash (demo_chain ! 0))"
    by (simp add: empty_state_def get_db_height_fold chain_client_def demo_defs)
  have "0 < length demo_chain" by (simp add: demo_chain_def)
  from chain_blocks_canonical [OF demo_canonical this, of demo_txs]
  have cb: "chain_blocks demo_client (length demo_chain - 0) (hash (demo_chain ! 0)) = Some (drop 0 demo_chain)"
    by blast
  from fetch_new_blocks_stores_chain [OF gc gh cb] show ?thesis by simp
qed

theorem fetch_new_blocks_blockcount_error_witness:
  "fetch_new_blocks (demo_client\<lparr>getblockcount := Inl ConnectivityError\<rparr>) demo_codec empty_state =
     Some (empty_state\<lparr>st_events := st_events empty_state @ [RpcGetBlockCount]\<rparr>)"
  by (rule fetch_new_blocks_blockcount_error) simp

theorem fetch_new_blocks_blockhash_error_witness:
  "fetch_new_blocks (demo_client\<lparr>getblockhash := (\<lambda>i. Inl ConnectivityError)\<rparr>) demo_codec empty_state =
     Some (empty_state\<lparr>st_events := st_events empty_state @
       [RpcGetBlockCount, RpcGetBlockHash (get_db_height demo_codec (st_db empty_state) + 1)]\<rparr>)"
  by (rule fetch_new_blocks_blockhash_error) (simp_all add: chain_client_def)

theorem fetch_new_blocks_diverges_on_cycle_witness:
  "fetch_new_blocks (chain_client [blk_loop] demo_txs) demo_codec empty_state = None"
proof (rule fetch_new_blocks_diverges_on_cycle)
  show "getblockcount (chain_client [blk_loop] demo_txs) = Inr 0" by (simp add: chain_client_def)
  show "getblockhash (chain_client [blk_loop] demo_txs) (get_db_height demo_codec (st_db empty_state) + 1) =
      Inr ''h0''"
    by (simp add: chain_client_def empty_state_def get_db_height_fold blk_loop_def)
  show "getblock (chain_client [blk_loop] demo_txs) ''h0'' = Inr blk_loop"
    by (simp add: chain_client_def blk_loop_def)
  show "nextblockhash blk_loop = Some ''h0''" by (simp add: blk_loop_def)
qed

theorem parse_block_refines_batch_witness:
  "db_wf (st_db (parse_block demo_client demo_codec blk0 empty_state)) \<and>
   map_of (st_db (parse_block demo_client demo_codec blk0 empty_state)) =
     map_of (st_db empty_state) ++ map_of (rev (block_entries demo_client demo_codec blk0))"
  by (rule parse_block_refines_batch) (simp add: empty_state_def db_wf_def)

theorem parse_block_tx_isolation_witness:
  "map_of (st_db (parse_block (chain_client [blk_iso] iso_txs) demo_codec blk_iso empty_state))
       (format_hashes (hash blk_iso)) = Some (serialize_block demo_codec blk_iso) \<and>
   map_of (st_db (parse_block (chain_client [blk_iso] iso_txs) demo_codec blk_iso empty_state))
       (tx_key ''t0'') = Some (serialize_tx demo_codec (\<lparr>txid = ''t0'', tx_fields = ()\<rparr>\<lparr>txid := ''t0''\<rparr>))"
  by (rule parse_block_tx_isolation)
    (simp_all add: empty_state_def db_wf_def blk_iso_def chain_client_def iso_txs_def)

theorem get_db_height_mono_witness:
  "get_db_height demo_codec [] \<le> get_db_height demo_codec [(format_hashes ''h0'', StoredBlock blk0)]"
  by (rule get_db_height_mono) (simp_all add: db_wf_def)

theorem crash_after_block_record_loses_transactions_witness:
  "\<exists>s' rest. fetch_new_blocks demo_client demo_codec
        \<lparr>st_db = synced_db demo_client demo_codec demo_chain 2, st_events = []\<rparr> = Some s' \<and>
     st_events s' = st_events \<lparr>st_db = synced_db demo_client demo_codec demo_chain 2, st_events = []\<rparr> @
       [RpcGetBlockCount, RpcGetBlockHash (int 2), RpcGetBlock (hash (demo_chain ! 2)),
        DbPut (format_hashes (hash (demo_chain ! 2))) (serialize_block demo_codec (demo_chain ! 2))] @ rest \<and>
     map_of (st_db s') (tx_key ''t2'') =
       Some (serialize_tx demo_codec (assemble_tx ''t2'' \<lparr>txid = ''t2'', tx_fields = ()\<rparr>)) \<and>
     replay_store [RpcGetBlockCount, RpcGetBlockHash (int 2), RpcGetBlock (hash (demo_chain ! 2)),
        DbPut (format_hashes (hash (demo_chain ! 2))) (serialize_block demo_codec (demo_chain ! 2))]
        (st_db \<lparr>st_db = synced_db demo_client demo_codec demo_chain 2, st_events = []\<rparr>) =
       db_put (format_hashes (hash (demo_chain ! 2))) (serialize_block demo_codec (demo_chain ! 2))
        (st_db \<lparr>st_db = synced_db demo_client demo_codec demo_chain 2, st_events = []\<rparr>) \<and>
     get_db_height demo_codec (db_put (format_hashes (hash (demo_chain ! 2)))
        (serialize_block demo_codec (demo_chain ! 2))
        (st_db \<lparr>st_db = synced_db demo_client demo_codec demo_chain 2, st_events = []\<rparr>)) = int 2 \<and>
     (\<exists>s''. fetch_new_blocks demo_client demo_codec
          \<lparr>st_db = db_put (format_hashes (hash (demo_chain ! 2))) (serialize_block demo_codec (demo_chain ! 2))
             (st_db \<lparr>st_db = synced_db demo_client demo_codec demo_chain 2, st_events = []\<rparr>),
           st_events = []\<rparr> = Some s'' \<and>
        map_of (st_db s'') (tx_key ''t2'') = None \<and> RpcGetRawTransaction ''t2'' \<notin> set (st_events s''))"
proof (rule crash_after_block_record_loses_transactions)
  show "canonical_chain demo_chain" by (rule demo_canonical)
  show "codec_ok demo_codec" by (rule codec_ok_tagged_codec)
  show "2 < length demo_chain" by (simp add: demo_chain_def)
  show "st_db \<lparr>st_db = synced_db demo_client demo_codec demo_chain 2, st_events = []\<rparr> =
      synced_db demo_client demo_codec demo_chain 2" by simp
  show "''t2'' \<in> set (tx (demo_chain ! 2))" by (simp add: demo_defs)
  show "\<forall>j < length demo_chain. j \<noteq> 2 \<longrightarrow> ''t2'' \<notin> set (tx (demo_chain ! j))"
  proof (intro allI impI)
    fix j assume "j < length demo_chain" "j \<noteq> 2"
    then have "j = 0 \<or> j = 1" by (auto simp: demo_chain_def less_Suc_eq)
    then show "''t2'' \<notin> set (tx (demo_chain ! j))" by (auto simp: demo_defs)
  qed
  show "demo_txs ''t2'' = Inr \<lparr>txid = ''t2'', tx_fields = ()\<rparr>" by (simp add: demo_txs_def)
qed

theorem misdecoded_value_skips_blocks_witness:
  "\<exists>s' es. fetch_new_blocks demo_client untagged_codec
        \<lparr>st_db = synced_db demo_client untagged_codec demo_chain 1, st_events = []\<rparr> = Some s' \<and>
     rpc_calls (st_events s') =
       rpc_calls (st_events \<lparr>st_db = synced_db demo_client untagged_codec demo_chain 1, st_events = []\<rparr>) @ es \<and>
     RpcGetBlock (hash (demo_chain ! 1)) \<notin> set es \<and>
     map_of (st_db s') (format_hashes (hash (demo_chain ! 1))) =
       map_of (st_db \<lparr>st_db = synced_db demo_client untagged_codec demo_chain 1, st_events = []\<rparr>)
         (format_hashes (hash (demo_chain ! 1)))"
proof (rule misdecoded_value_skips_blocks)
  show "canonical_chain demo_chain" by (rule demo_canonical)
  show "db_wf (st_db \<lparr>st_db = synced_db demo_client untagged_codec demo_chain 1, st_events = []\<rparr>)"
    by (simp add: synced_db_wf)
  show "(tx_key ''t0'', StoredTx \<lparr>txid = ''t0'', tx_fields = ()\<rparr>) \<in>
      set (st_db \<lparr>st_db = synced_db demo_client untagged_codec demo_chain 1, st_events = []\<rparr>)"
    by (simp add: synced_db_def demo_chain_def block_entries_def tx_entries_def chain_client_def
        demo_txs_def untagged_codec_def tagged_codec_def assemble_tx_def db_write_def blk0_def)
  show "deserialize_block untagged_codec (StoredTx \<lparr>txid = ''t0'', tx_fields = ()\<rparr>) =
      Inr \<lparr>hash = ''t0'', height = 2, tx = [], nextblockhash = None\<rparr>"
    by (simp add: untagged_codec_def tagged_codec_def)
  show "1 < length demo_chain" by (simp add: demo_chain_def)
  show "int 1 \<le> height \<lparr>hash = ''t0'', height = 2, tx = [], nextblockhash = None\<rparr>" by simp
qed

theorem fetch_new_blocks_trace_witness:
  "\<exists>s'. fetch_new_blocks demo_client demo_codec empty_state = Some s' \<and>
     st_events s' = st_events empty_state @ run_events demo_client demo_codec demo_chain 0 \<and>
     st_db s' = replay_store (run_events demo_client demo_codec demo_chain 0) (st_db empty_state)"
proof (rule fetch_new_blocks_trace)
  show "canonical_chain demo_chain" by (rule demo_canonical)
  show "0 \<le> length demo_chain" by simp
  show "get_db_height demo_codec (st_db empty_state) = int 0 - 1"
    by (simp add: empty_state_def get_db_height_fold)
qed

theorem fetch_new_blocks_ignores_tip_example:
  "fetch_new_blocks (demo_client\<lparr>getblockcount := Inr 0\<rparr>) demo_codec empty_state =
   fetch_new_blocks (demo_client\<lparr>getblockcount := Inr 1000\<rparr>) demo_codec empty_state"
  by (rule fetch_new_blocks_ignores_tip)

theorem reachable_store_recoverable_witness:
  "recoverable demo_client demo_codec demo_chain
     (replay_store (take 4 (run_events demo_client demo_codec demo_chain 0)) [])"
  by (rule reachable_store_recoverable [OF demo_crash_reachable demo_canonical codec_ok_tagged_codec])

theorem crash_restart_no_gaps_witness:
  "get_db_height demo_codec [(format_hashes ''h0'', StoredBlock blk0)] = 0 \<and>
   (format_hashes (hash (demo_chain ! 0)), serialize_block demo_codec (demo_chain ! 0))
     \<in> set [(format_hashes ''h0'', StoredBlock blk0)] \<and>
   set [(format_hashes ''h0'', StoredBlock blk0)] \<subseteq>
     set (concat (map (block_entries demo_client demo_codec) demo_chain))"
proof -
  note g = crash_restart_no_gaps [OF demo_crash_reachable demo_canonical codec_ok_tagged_codec,
      unfolded demo_crash_store]
  have w: "get_db_height demo_codec [(format_hashes ''h0'', StoredBlock blk0)] = 0"
    by (simp add: get_db_height_fold scan_step_def tagged_codec_def blk0_def)
  from g w show ?thesis by simp
qed

theorem crash_restart_recovers_witness:
  "\<exists>s. main_prog (Inr [(format_hashes ''h0'', StoredBlock blk0)]) demo_client demo_codec = Inr (Some s) \<and>
     get_db_height demo_codec (st_db s) = 2 \<and>
     (format_hashes ''h0'', StoredBlock blk0) \<in> set (st_db s) \<and>
     (format_hashes ''h1'', StoredBlock blk1) \<in> set (st_db s) \<and>
     (format_hashes ''h2'', StoredBlock blk2) \<in> set (st_db s)"
proof -
  from crash_restart_recovers [OF demo_crash_reachable demo_canonical codec_ok_tagged_codec,
      unfolded demo_crash_store]
  obtain s where r: "main_prog (Inr [(format_hashes ''h0'', StoredBlock blk0)]) demo_client demo_codec = Inr (Some s)"
    and w: "get_db_height demo_codec (st_db s) = int (length demo_chain) - 1"
    and all: "\<forall>i < length demo_chain.
        (format_hashes (hash (demo_chain ! i)), serialize_block demo_codec (demo_chain ! i)) \<in> set (st_db s)"
    by blast
  have l: "length demo_chain = 3" by (simp add: demo_chain_def)
  from all l have "(format_hashes (hash (demo_chain ! 0)), serialize_block demo_codec (demo_chain ! 0)) \<in> set (st_db s)"
    "(format_hashes (hash (demo_chain ! 1)), serialize_block demo_codec (demo_chain ! 1)) \<in> set (st_db s)"
    "(format_hashes (hash (demo_chain ! 2)), serialize_block demo_codec (demo_chain ! 2)) \<in> set (st_db s)"
    by simp_all
  with r w l show ?thesis by (auto simp: demo_chain_def tagged_codec_def blk0_def blk1_def blk2_def)
qed


theorem reachable_store_typed_witness:
  "store_typed demo_codec
     (replay_store (take 6 (run_events (chain_client demo_chain liar_txs) demo_codec demo_chain 0)) [])"
  by (rule reachable_store_typed [OF demo_prefix_reachable codec_roundtrip_tagged_codec])

theorem fetch_new_blocks_refines_pipeline_witness:
  "\<exists>s'. fetch_new_blocks demo_client demo_codec empty_state = Some s' \<and>
     (\<exists>es. st_events s' = st_events empty_state @ es \<and> pipeline_run Idle es Done)"
proof -
  from fetch_new_blocks_canonical [OF demo_canonical codec_ok_tagged_codec _ empty_state_synced]
  obtain s' where r: "fetch_new_blocks demo_client demo_codec empty_state = Some s'" by blast
  from fetch_new_blocks_refines_pipeline [OF r] r show ?thesis
    by (simp add: empty_state_def get_db_height_fold chain_client_def demo_defs)
qed

theorem fetch_new_blocks_flush_cadence_witness:
  "\<exists>s'. fetch_new_blocks demo_client demo_codec empty_state = Some s' \<and>
     (\<exists>es. st_events s' = st_events empty_state @ es \<and> fetches_within 0 es \<and> unflushed_fetches 0 es = 0)"
proof -
  from fetch_new_blocks_canonical [OF demo_canonical codec_ok_tagged_codec _ empty_state_synced]
  obtain s' where r: "fetch_new_blocks demo_client demo_codec empty_state = Some s'" by blast
  from fetch_new_blocks_flush_cadence [OF r] r show ?thesis by blast
qed

theorem incremental_sync_witness:
  "\<exists>s'. fetch_new_blocks (chain_client grown_chain demo_txs) demo_codec
          \<lparr>st_db = synced_db demo_client demo_codec demo_chain 3, st_events = []\<rparr> = Some s' \<and>
     rpc_calls (st_events s') = [RpcGetBlockCount, RpcGetBlockHash 3, RpcGetBlock ''h3'', RpcGetRawTransaction ''t3''] \<and>
     get_db_height demo_codec (st_db s') = 3 \<and>
     (format_hashes ''h2'', StoredBlock blk2) \<in> set (st_db s') \<and>
     (format_hashes ''h3'', StoredBlock blk3) \<in> set (st_db s')"
proof -
  have l: "length demo_chain = 3" "length grown_chain = 4" by (simp_all add: demo_chain_def grown_chain_def)
  have full: "st_db \<lparr>st_db = synced_db demo_client demo_codec demo_chain 3, st_events = []\<rparr> =
      synced_db demo_client demo_codec demo_chain (length demo_chain)" by (simp add: l)
  from incremental_sync [OF demo_chain_grows codec_ok_tagged_codec full] l obtain s' where
    f: "fetch_new_blocks (chain_client grown_chain demo_txs) demo_codec
          \<lparr>st_db = synced_db demo_client demo_codec demo_chain 3, st_events = []\<rparr> = Some s'" and
    r: "rpc_calls (st_events s') = RpcGetBlockCount # RpcGetBlockHash 3 # sync_rpcs (drop 3 grown_chain)" and
    w: "get_db_height demo_codec (st_db s') = 3" and
    all: "\<forall>i < 4. (format_hashes (hash (grown_chain ! i)),
          serialize_block demo_codec (if i < 3 then demo_chain ! i else grown_chain ! i)) \<in> set (st_db s')"
    by auto
  have "(format_hashes (hash (grown_chain ! 2)), serialize_block demo_codec (demo_chain ! 2)) \<in> set (st_db s')"
    "(format_hashes (hash (grown_chain ! 3)), serialize_block demo_codec (grown_chain ! 3)) \<in> set (st_db s')"
    using all [rule_format, of 2] all [rule_format, of 3] by simp_all
  with f r w show ?thesis
    by (simp add: grown_chain_def demo_chain_def sync_rpcs_def tagged_codec_def blk2_grown_def blk3_def blk2_def)
qed

theorem incremental_sync_stale_tip_witness:
  "\<exists>s' v b. fetch_new_blocks (chain_client grown_chain demo_txs) demo_codec
          \<lparr>st_db = synced_db demo_client demo_codec demo_chain 3, st_events = []\<rparr> = Some s' \<and>
     map_of (st_db s') (format_hashes ''h2'') = Some v \<and>
     deserialize_block demo_codec v = Inr b \<and> nextblockhash b = None \<and>
     nextblockhash blk2_grown = Some ''h3''"
proof -
  have l: "length demo_chain = 3" "length grown_chain = 4" by (simp_all add: demo_chain_def grown_chain_def)
  have full: "st_db \<lparr>st_db = synced_db demo_client demo_codec demo_chain 3, st_events = []\<rparr> =
      synced_db demo_client demo_codec demo_chain (length demo_chain)" by (simp add: l)
  have "0 < length demo_chain" "length demo_chain < length grown_chain" using l by simp_all
  from incremental_sync_stale_tip [OF demo_chain_grows codec_ok_tagged_codec full this] l
  show ?thesis by (simp add: grown_chain_def blk2_grown_def blk3_def blk2_def)
qed

theorem crash_history_lost_blocks_witness:
  "lost_blocks demo_client demo_codec demo_chain [(format_hashes ''h0'', StoredBlock blk0)] = [0] \<and>
   length (lost_blocks demo_client demo_codec demo_chain [(format_hashes ''h0'', StoredBlock blk0)]) \<le> 1"
proof -
  have "length (lost_blocks demo_client demo_codec demo_chain [(format_hashes ''h0'', StoredBlock blk0)]) \<le> 1"
    using crash_history_lost_blocks [OF demo_crash_history demo_canonical codec_ok_tagged_codec]
    by (simp only: demo_crash_store)
  moreover have "lost_blocks demo_client demo_codec demo_chain [(format_hashes ''h0'', StoredBlock blk0)] = [0]"
    by (simp add: lost_blocks_def block_complete_def block_entries_def tx_entries_def chain_client_def
        demo_defs tagged_codec_def tx_key_def format_hashes_def upt_conv_Cons)
  ultimately show ?thesis by simp
qed

theorem restart_never_refetches_witness:
  "\<exists>s. main_prog (Inr [(format_hashes ''h0'', StoredBlock blk0)]) demo_client demo_codec = Inr (Some s) \<and>
     RpcGetBlock ''h1'' \<in> set (st_events s) \<and>
     map_of [(format_hashes ''h0'', StoredBlock blk0 :: unit stored_value)] (format_hashes ''h1'') = None"
proof -
  from demo_restart_run obtain s where
    r: "main_prog (Inr [(format_hashes ''h0'', StoredBlock blk0)]) demo_client demo_codec = Inr (Some s)" and
    e: "st_events s = run_events demo_client demo_codec demo_chain 1" by blast
  have g: "RpcGetBlock ''h1'' \<in> set (st_events s)"
    by (simp add: e run_events_def canonical_trace_def block_trace_def demo_defs upt_conv_Cons)
  have reach: "reachable_store demo_client demo_codec [(format_hashes ''h0'', StoredBlock blk0)]"
    using demo_crash_reachable by (simp only: demo_crash_store)
  from restart_never_refetches [OF reach demo_canonical codec_ok_tagged_codec r g]
  have "map_of [(format_hashes ''h0'', StoredBlock blk0 :: unit stored_value)] (format_hashes ''h1'') = None" .
  with r g show ?thesis by (intro exI [of _ s] conjI)
qed

theorem restart_watermark_monotone_witness:
  "\<exists>s. main_prog (Inr [(format_hashes ''h0'', StoredBlock blk0)]) demo_client demo_codec = Inr (Some s) \<and>
     get_db_height demo_codec [(format_hashes ''h0'', StoredBlock blk0)] \<le>
       get_db_height demo_codec (replay_store (take 5 (st_events s)) [(format_hashes ''h0'', StoredBlock blk0)])"
proof -
  from demo_restart_run obtain s where
    r: "main_prog (Inr [(format_hashes ''h0'', StoredBlock blk0)]) demo_client demo_codec = Inr (Some s)" by blast
  have reach: "reachable_store demo_client demo_codec [(format_hashes ''h0'', StoredBlock blk0)]"
    using demo_crash_reachable by (simp only: demo_crash_store)
  from restart_watermark_monotone [OF reach demo_canonical codec_ok_tagged_codec r, of 5] r show ?thesis by blast
qed

theorem transient_getblock_failure_recovers_witness:
  "\<exists>s' s''. fetch_new_blocks (getblock_fails_at demo_client ''h1'') demo_codec empty_state = Some s' \<and>
     st_db s' = synced_db demo_client demo_codec demo_chain 1 \<and>
     get_db_height demo_codec (st_db s') = 0 \<and>
     fetch_new_blocks demo_client demo_codec s' = Some s'' \<and>
     st_db s'' = synced_db demo_client demo_codec demo_chain 3"
proof -
  have l: "0 \<le> (1::nat)" "1 < length demo_chain" by (simp_all add: demo_chain_def)
  have h: "hash (demo_chain ! 1) = ''h1''" "length demo_chain = 3" by (simp_all add: demo_defs)
  from transient_getblock_failure_recovers [OF demo_canonical codec_ok_tagged_codec l empty_state_synced] h
  show ?thesis by simp
qed


theorem walk_refetch_harmless_witness:
  "\<exists>bt s'. walk demo_client demo_codec 1 ''h1'' []
       \<lparr>st_db = synced_db demo_client demo_codec demo_chain 3, st_events = []\<rparr> = Some (bt, s') \<and>
     st_db s' = synced_db demo_client demo_codec demo_chain 3"
proof -
  have "1 \<le> (3::nat)" "1 < length demo_chain" "hash (demo_chain ! 1) = ''h1''" "length demo_chain = 3"
    by (simp_all add: demo_defs)
  with walk_refetch_harmless [OF demo_canonical, where j = 1 and n = 3 and txs = demo_txs and cd = demo_codec
      and s = "\<lparr>st_db = synced_db demo_client demo_codec demo_chain 3, st_events = []\<rparr>"]
  show ?thesis by simp
qed


theorem fetch_new_blocks_cost_witness:
  "\<exists>s' es. fetch_new_blocks demo_client demo_codec empty_state = Some s' \<and>
     st_events s' = st_events empty_state @ es \<and> length (rpc_calls es) = 8 \<and> store_writes es = 11"
proof -
  have w: "get_db_height demo_codec (st_db empty_state) = int 0 - 1"
    by (simp add: empty_state_def get_db_height_fold)
  from fetch_new_blocks_cost [OF demo_canonical _ w, of demo_txs] show ?thesis
    by (simp add: demo_defs upt_conv_Cons)
qed

theorem start_height_overflow_witness:
  "i64_checked_succ (get_db_height demo_codec max_store) = None \<and>
   i64_succ (get_db_height demo_codec max_store) = - (2 ^ 63)"
proof -
  have d: "decoded_blocks demo_codec max_store = [blk_max]"
    by (simp add: max_store_def tagged_codec_def)
  have "\<forall>b \<in> set (decoded_blocks demo_codec max_store). height b \<le> i64_max"
    by (simp add: d blk_max_def)
  from start_height_overflow [OF this] show ?thesis by (simp add: d blk_max_def)
qed

end
